theory Spec2Isabelle
  imports Complex_Main "HOL-Library.Char_ord" "HOL-Library.List_Lexorder" "HOL-Library.Sublist"
begin

section \<open>The adaptive quiz of \<^verbatim>\<open>app.py\<close>\<close>

text \<open>
  The program is one Streamlit script. Every user action runs the script once from top
  to bottom against the session variables (\<^verbatim>\<open>st.session_state\<close>) and the log file
  \<^verbatim>\<open>user_logs.csv\<close>. The embedding below follows the script: Python exceptions are
  values of \<open>py_error\<close>, the session variables and the log file are one record that each
  handler takes and returns, and the three external services (the scikit-learn fitting
  routine, the fitted model's \<^verbatim>\<open>predict_proba\<close> and the question generator) are
  parameters.

  Three library functions are modelled on a part of their inputs only: \<^verbatim>\<open>int()\<close> on
  ASCII strings, the formatting of integers that CPython agrees to format, and the CSV
  file on texts whose cells need no quoting and are read back as they were written. On
  the other inputs these functions have the value \<open>None\<close>, and a run of the script that
  meets one has the outcome \<open>Unmodelled\<close>: nothing is stated about it.
\<close>

subsection \<open>Python values\<close>

datatype py_error = ValueError | IndexError | KeyError | FileNotFoundError | OtherException

definition MAX_QUESTIONS :: int where
  "MAX_QUESTIONS = 6"

text \<open>\<^verbatim>\<open>xs[i]\<close>: a negative index counts from the end, anything else out of range raises.\<close>

definition py_index :: "'a list \<Rightarrow> int \<Rightarrow> py_error + 'a" where
  "py_index xs i =
     (if 0 \<le> i \<and> i < int (length xs) then Inr (xs ! nat i)
      else if i < 0 \<and> - int (length xs) \<le> i then Inr (xs ! nat (int (length xs) + i))
      else Inl IndexError)"

text \<open>\<^verbatim>\<open>s.split(sep)\<close> for a one-character separator: never an empty list.\<close>

fun split_all :: "char \<Rightarrow> string \<Rightarrow> string list" where
  "split_all sep [] = [[]]"
| "split_all sep (c # cs) =
     (if c = sep then [] # split_all sep cs
      else (case split_all sep cs of
              [] \<Rightarrow> [[c]]
            | w # ws \<Rightarrow> (c # w) # ws))"

text \<open>\<^verbatim>\<open>s.split(sep, 1)\<close>: at most one cut, at the first separator.\<close>

fun split_once :: "char \<Rightarrow> string \<Rightarrow> string list" where
  "split_once sep [] = [[]]"
| "split_once sep (c # cs) =
     (if c = sep then [[], cs]
      else (case split_once sep cs of
              [] \<Rightarrow> [[c]]
            | w # ws \<Rightarrow> (c # w) # ws))"

text \<open>\<^verbatim>\<open>a, b = xs\<close>: unpacking raises ValueError unless \<open>xs\<close> has exactly two items.\<close>

fun unpack2 :: "'a list \<Rightarrow> py_error + ('a \<times> 'a)" where
  "unpack2 [a, b] = Inr (a, b)"
| "unpack2 _ = Inl ValueError"

text \<open>
  \<^verbatim>\<open>str(n)\<close> and \<^verbatim>\<open>f"{n}"\<close> of an integer: decimal digits, a minus sign when negative.
\<close>

definition digit_char :: "nat \<Rightarrow> char" where
  "digit_char d = ''0123456789'' ! d"

fun str_nat :: "nat \<Rightarrow> string" where
  "str_nat n = (if n < 10 then [digit_char n] else str_nat (n div 10) @ [digit_char (n mod 10)])"

declare str_nat.simps [simp del]

definition str_int :: "int \<Rightarrow> string" where
  "str_int i = (if i < 0 then CHR ''-'' # str_nat (nat (- i)) else str_nat (nat i))"

text \<open>
  CPython (from version 3.11 on) refuses to convert between a string and an integer of
  more than 4300 decimal digits; earlier versions convert. The model leaves such
  conversions out.
\<close>

definition max_str_digits :: nat where
  "max_str_digits = 4300"

definition formattable :: "int \<Rightarrow> bool" where
  "formattable i = (\<bar>i\<bar> < 10 ^ max_str_digits)"

text \<open>
  \<^verbatim>\<open>int(s)\<close> of a string, base 10: white space around the number is dropped, one sign
  is allowed, the digits may be grouped by single underscores; anything else raises
  ValueError. Strings are byte strings here. For a string of ASCII characters the white
  space is that of C (tab, line feed, vertical tab, form feed, carriage return, space)
  and the digits are 0 to 9; what \<^verbatim>\<open>int()\<close> makes of the other Unicode digits and spaces
  is not modelled, so a string with a byte outside ASCII has no value here.
\<close>

definition is_space :: "char \<Rightarrow> bool" where
  "is_space c = (c \<in> set [CHR '' '', CHR 0x09, CHR 0x0A, CHR 0x0B, CHR 0x0C, CHR 0x0D])"

definition is_ascii :: "char \<Rightarrow> bool" where
  "is_ascii c = (of_char c < (128 :: nat))"

definition strip :: "string \<Rightarrow> string" where
  "strip s = rev (dropWhile is_space (rev (dropWhile is_space s)))"

definition digit_of :: "char \<Rightarrow> int option" where
  "digit_of c = map_of (zip ''0123456789'' [0, 1, 2, 3, 4, 5, 6, 7, 8, 9]) c"

fun parse_rest :: "int \<Rightarrow> string \<Rightarrow> int option" where
  "parse_rest acc [] = Some acc"
| "parse_rest acc [c] =
     (case digit_of c of None \<Rightarrow> None | Some d \<Rightarrow> Some (10 * acc + d))"
| "parse_rest acc (c # c' # cs) =
     (if c = CHR ''_''
      then (case digit_of c' of None \<Rightarrow> None | Some d \<Rightarrow> parse_rest (10 * acc + d) cs)
      else (case digit_of c of None \<Rightarrow> None | Some d \<Rightarrow> parse_rest (10 * acc + d) (c' # cs)))"

definition parse_digits :: "string \<Rightarrow> int option" where
  "parse_digits s =
     (case s of
        [] \<Rightarrow> None
      | c # cs \<Rightarrow> (case digit_of c of None \<Rightarrow> None | Some d \<Rightarrow> parse_rest d cs))"

definition py_int :: "string \<Rightarrow> (py_error + int) option" where
  "py_int s =
     (if list_all is_ascii s \<and> length s \<le> max_str_digits then
        (let t = strip s;
             v = (case t of
                    [] \<Rightarrow> None
                  | c # cs \<Rightarrow>
                      if c = CHR ''-'' then map_option uminus (parse_digits cs)
                      else if c = CHR ''+'' then parse_digits cs
                      else parse_digits t)
         in case v of None \<Rightarrow> Some (Inl ValueError) | Some n \<Rightarrow> Some (Inr n))
      else None)"

text \<open>
  A \<^verbatim>\<open>dict\<close> keeps its keys in insertion order; assigning to a key that is present
  replaces the value where it stands.
\<close>

fun dict_set :: "('k \<times> 'v) list \<Rightarrow> 'k \<Rightarrow> 'v \<Rightarrow> ('k \<times> 'v) list" where
  "dict_set [] k v = [(k, v)]"
| "dict_set ((k', v') # kvs) k v =
     (if k' = k then (k, v) # kvs else (k', v') # dict_set kvs k v)"

text \<open>
  \<^verbatim>\<open>min(d, key=d.get)\<close>: the keys are visited in insertion order and the candidate
  changes only for a strictly smaller value; an empty dictionary raises ValueError.
\<close>

fun min_scan :: "('k \<times> real) \<Rightarrow> ('k \<times> real) list \<Rightarrow> 'k" where
  "min_scan (bk, bv) [] = bk"
| "min_scan (bk, bv) ((k, v) # kvs) =
     (if v < bv then min_scan (k, v) kvs else min_scan (bk, bv) kvs)"

definition min_key :: "('k \<times> real) list \<Rightarrow> py_error + 'k" where
  "min_key d = (case d of [] \<Rightarrow> Inl ValueError | kv # kvs \<Rightarrow> Inr (min_scan kv kvs))"

subsection \<open>The response log\<close>

text \<open>
  One row of \<^verbatim>\<open>user_logs.csv\<close>, with the columns of its header. The state of the file
  is given by what \<^verbatim>\<open>pd.read_csv\<close> returns for it: \<open>None\<close> when the file does not exist,
  otherwise its rows in file order.
\<close>

record response_record =
  topic :: string
  difficulty :: string
  answered_correct :: int
  choice :: int
  question_id :: string

type_synonym log_store = "response_record list option"

text \<open>Lines 34-35: a missing file is created with the header only.\<close>

definition init_log_file :: "log_store \<Rightarrow> log_store" where
  "init_log_file f = (case f of None \<Rightarrow> Some [] | Some rows \<Rightarrow> Some rows)"

definition read_csv :: "log_store \<Rightarrow> py_error + response_record list" where
  "read_csv f = (case f of None \<Rightarrow> Inl FileNotFoundError | Some rows \<Rightarrow> Inr rows)"

text \<open>
  The CSV text. \<^verbatim>\<open>df.to_csv(LOG_FILE, index=False)\<close> writes the header line and one
  line per row, the cells separated by commas, an integer in decimal, every line ended
  by a line feed (the line end of the platform, here that of Linux). The model writes
  a row only if its cells are plain: a string cell is made of ASCII letters, digits,
  spaces and underscores, starts with a letter other than N, I, T, F (in either case)
  and does not end with a space, so that it needs no quotes and cannot be taken for a
  missing value, a number or a truth value when the file is read; an integer cell fits
  into 64 bits, so that its column is read as integers. The three topics, the three
  difficulties and the question ids that the script builds are plain.
\<close>

definition csv_header :: string where
  "csv_header = ''topic,difficulty,answered_correct,choice,question_id''"

definition plain_char :: "char \<Rightarrow> bool" where
  "plain_char c =
     (c \<in> set ''ABCDEFGHIJKLMNOPQRSTUVWXYZabcdefghijklmnopqrstuvwxyz0123456789 _'')"

definition plain_first :: "char \<Rightarrow> bool" where
  "plain_first c = (c \<in> set ''ABCDEGHJKLMOPQRSUVWXYZabcdeghjklmopqrsuvwxyz'')"

definition plain_cell :: "string \<Rightarrow> bool" where
  "plain_cell s =
     (case s of
        [] \<Rightarrow> False
      | c # cs \<Rightarrow> plain_first c \<and> list_all plain_char cs \<and> last s \<noteq> CHR '' '')"

definition in_int64 :: "int \<Rightarrow> bool" where
  "in_int64 i = (- (2 ^ 63) \<le> i \<and> i < 2 ^ 63)"

definition plain_row :: "response_record \<Rightarrow> bool" where
  "plain_row r =
     (plain_cell (topic r) \<and> plain_cell (difficulty r) \<and> in_int64 (answered_correct r) \<and>
      in_int64 (choice r) \<and> plain_cell (question_id r))"

definition render_row :: "response_record \<Rightarrow> string" where
  "render_row r =
     topic r @ '','' @ difficulty r @ '','' @ str_int (answered_correct r) @ '','' @
     str_int (choice r) @ '','' @ question_id r"

definition to_csv :: "response_record list \<Rightarrow> string option" where
  "to_csv rows =
     (if list_all plain_row rows
      then Some (concat (map (\<lambda>line. line @ [CHR 0x0A]) (csv_header # map render_row rows)))
      else None)"

text \<open>
  \<^verbatim>\<open>pd.read_csv(LOG_FILE)\<close> on a CSV text: the first line is the header, every further
  line is one row, and the text ends with a line feed. The model reads the texts whose
  lines have five cells, plain strings in the first, second and fifth and integers in
  the third and fourth, written the way \<^verbatim>\<open>str\<close> writes them.
\<close>

fun digits_value :: "nat \<Rightarrow> string \<Rightarrow> nat option" where
  "digits_value acc [] = Some acc"
| "digits_value acc (c # cs) =
     (case digit_of c of None \<Rightarrow> None | Some d \<Rightarrow> digits_value (10 * acc + nat d) cs)"

definition int_cell :: "string \<Rightarrow> int option" where
  "int_cell s =
     (let v = (case s of
                 [] \<Rightarrow> None
               | c # cs \<Rightarrow>
                   if c = CHR ''-'' then map_option (\<lambda>n. - int n) (digits_value 0 cs)
                   else map_option int (digits_value 0 s))
      in case v of
           None \<Rightarrow> None
         | Some i \<Rightarrow> if str_int i = s \<and> in_int64 i then Some i else None)"

definition parse_row :: "string \<Rightarrow> response_record option" where
  "parse_row line =
     (case split_all (CHR '','') line of
        [a, b, c, d, e] \<Rightarrow>
          (case (int_cell c, int_cell d) of
             (Some x, Some y) \<Rightarrow>
               if plain_cell a \<and> plain_cell b \<and> plain_cell e
               then Some \<lparr>topic = a, difficulty = b, answered_correct = x, choice = y,
                          question_id = e\<rparr>
               else None
           | _ \<Rightarrow> None)
      | _ \<Rightarrow> None)"

definition from_csv :: "string \<Rightarrow> response_record list option" where
  "from_csv csv =
     (case split_all (CHR 0x0A) csv of
        [] \<Rightarrow> None
      | h # ls \<Rightarrow>
          if h = csv_header \<and> ls \<noteq> [] \<and> last ls = []
          then those (map parse_row (butlast ls))
          else None)"

text \<open>
  \<^verbatim>\<open>log_result\<close>: read the whole file, concatenate one row, write the whole file back.
  The new state of the file is what \<^verbatim>\<open>pd.read_csv\<close> makes of the text written.
\<close>

definition log_result ::
  "string \<Rightarrow> string \<Rightarrow> int \<Rightarrow> int \<Rightarrow> string \<Rightarrow> log_store \<Rightarrow> (py_error + log_store) option" where
  "log_result t d ac ch qid f =
     (case read_csv f of
        Inl e \<Rightarrow> Some (Inl e)
      | Inr df_log \<Rightarrow>
          (case to_csv (df_log @ [\<lparr>topic = t, difficulty = d, answered_correct = ac,
                                    choice = ch, question_id = qid\<rparr>]) of
             None \<Rightarrow> None
           | Some csv \<Rightarrow>
               (case from_csv csv of
                  None \<Rightarrow> None
                | Some rows \<Rightarrow> Some (Inr (Some rows)))))"

subsection \<open>The adaptive selector\<close>

text \<open>
  \<^verbatim>\<open>OneHotEncoder(handle_unknown="ignore")\<close> over the two columns topic and difficulty:
  fitting collects the sorted distinct values of each column; transforming a row puts a
  1 at the position of each value among its column's categories, and a value that was
  not seen in fitting gives zeros for its column instead of an error.
\<close>

record encoder =
  topic_categories :: "string list"
  difficulty_categories :: "string list"

definition enc_fit :: "(string \<times> string) list \<Rightarrow> encoder" where
  "enc_fit X = \<lparr>topic_categories = sort (remdups (map fst X)),
               difficulty_categories = sort (remdups (map snd X))\<rparr>"

definition one_hot :: "string list \<Rightarrow> string \<Rightarrow> nat list" where
  "one_hot cats v = map (\<lambda>c. if c = v then 1 else 0) cats"

definition enc_transform :: "encoder \<Rightarrow> string \<times> string \<Rightarrow> nat list" where
  "enc_transform enc x =
     one_hot (topic_categories enc) (fst x) @ one_hot (difficulty_categories enc) (snd x)"

text \<open>
  A fitted \<^verbatim>\<open>LogisticRegression\<close> is used only through
  \<^verbatim>\<open>predict_proba(X_enc)[0][1]\<close>: it is a function from an encoded row to the
  probability of a correct answer, or to the exception the library raises. The fitting
  routine \<^verbatim>\<open>model.fit(X_enc, y)\<close> is a parameter \<open>fit\<close> of the same kind. Probabilities
  are real numbers; the program only compares them.
\<close>

type_synonym model = "nat list \<Rightarrow> py_error + real"

type_synonym fitter = "nat list list \<Rightarrow> int list \<Rightarrow> py_error + model"

definition nunique :: "int list \<Rightarrow> nat" where
  "nunique ys = length (remdups ys)"

text \<open>\<^verbatim>\<open>log_data[["topic", "difficulty"]]\<close>: the two feature columns, row by row.\<close>

definition feature_columns :: "response_record list \<Rightarrow> (string \<times> string) list" where
  "feature_columns log_data = map (\<lambda>r. (topic r, difficulty r)) log_data"

definition train_adaptive_model ::
  "fitter \<Rightarrow> log_store \<Rightarrow> py_error + (model option \<times> encoder option)" where
  "train_adaptive_model fit f =
     (case read_csv f of
        Inl e \<Rightarrow> Inl e
      | Inr log_data \<Rightarrow>
          if length log_data < 3 \<or> nunique (map answered_correct log_data) < 2
          then Inr (None, None)
          else
            let X = feature_columns log_data;
                y = map answered_correct log_data;
                enc = enc_fit X;
                X_enc = map (enc_transform enc) X
            in case fit X_enc y of
                 Inl e \<Rightarrow> Inl e
               | Inr m \<Rightarrow> Inr (Some m, Some enc))"

definition topics :: "string list" where
  "topics = [''World War I'', ''World War II'', ''World Wars General'']"

definition difficulties :: "string list" where
  "difficulties = [''Easy'', ''Medium'', ''Hard'']"

text \<open>The f-string \<^verbatim>\<open>f"{topic}_{difficulty}"\<close>.\<close>

definition combo_key :: "string \<Rightarrow> string \<Rightarrow> string" where
  "combo_key t d = t @ ''_'' @ d"

text \<open>The body of the \<^verbatim>\<open>try\<close>, with the bare \<^verbatim>\<open>except\<close> that stores 0.5.\<close>

definition predicted :: "model \<Rightarrow> encoder \<Rightarrow> string \<Rightarrow> string \<Rightarrow> real" where
  "predicted m enc t d =
     (case m (enc_transform enc (t, d)) of
        Inr prob \<Rightarrow> prob
      | Inl e \<Rightarrow> 0.5)"

text \<open>The two nested \<^verbatim>\<open>for\<close> loops that fill the dictionary \<^verbatim>\<open>predictions\<close>.\<close>

definition fill_predictions :: "model \<Rightarrow> encoder \<Rightarrow> (string \<times> real) list" where
  "fill_predictions m enc =
     foldl (\<lambda>predictions t.
              foldl (\<lambda>predictions d. dict_set predictions (combo_key t d) (predicted m enc t d))
                    predictions difficulties)
           [] topics"

definition select_adaptive_difficulty ::
  "model option \<Rightarrow> encoder option \<Rightarrow> py_error + (string \<times> string)" where
  "select_adaptive_difficulty model enc =
     (case (model, enc) of
        (Some m, Some e) \<Rightarrow>
          (case min_key (fill_predictions m e) of
             Inl err \<Rightarrow> Inl err
           | Inr weakest_key \<Rightarrow> unpack2 (split_once (CHR ''_'') weakest_key))
      | _ \<Rightarrow> Inr (''World War I'', ''Easy''))"

subsection \<open>The session\<close>

text \<open>
  The dictionary \<^verbatim>\<open>question_data\<close>: the seven entries of the generator's JSON object
  and the three entries the script adds. The entries are typed. The keys that the page
  reads before the submit handler changes anything are taken as present; the key
  \<^verbatim>\<open>explanation\<close>, which the handler reads after it has raised the score, may be
  missing (\<open>None\<close>), and reading it then raises KeyError.
\<close>

record question_data =
  question :: string
  option1 :: string
  option2 :: string
  option3 :: string
  option4 :: string
  correct_answer :: int
  explanation :: "string option"
  q_topic :: string
  q_difficulty :: string
  q_question_id :: string

text \<open>
  The session variables \<^verbatim>\<open>score\<close>, \<^verbatim>\<open>current_question\<close>, \<^verbatim>\<open>answered\<close> and
  \<^verbatim>\<open>num_questions\<close>, together with the log file. (\<^verbatim>\<open>asked_questions\<close> is initialised
  and never read or written again.)
\<close>

record app_state =
  score :: int
  current_question :: "question_data option"
  answered :: bool
  num_questions :: int
  log_file :: log_store

text \<open>Lines 309-318: the values a fresh session starts from.\<close>

definition fresh_session :: "log_store \<Rightarrow> app_state" where
  "fresh_session f =
     \<lparr>score = 0, current_question = None, answered = False, num_questions = 0, log_file = f\<rparr>"

text \<open>
  The result of running a piece of the script: it ran to its end, or an exception
  stopped the run; in both cases the session variables and the file keep what was
  written up to that point. \<open>Unmodelled\<close> is the result of a run that met an input on
  which one of the library functions above has no value.
\<close>

datatype outcome = Done app_state | Raised py_error app_state | Unmodelled

fun and_then :: "outcome \<Rightarrow> (app_state \<Rightarrow> outcome) \<Rightarrow> outcome" where
  "and_then (Done s) k = k s"
| "and_then (Raised e s) k = Raised e s"
| "and_then Unmodelled k = Unmodelled"

datatype button =
  No_Button | Submit_Answer | Next_Question | Take_Quiz_Again | Download_Report | Study_Tips

type_synonym generator = "string \<Rightarrow> string \<Rightarrow> question_data option"

text \<open>
  Lines 340-353. \<^verbatim>\<open>generate_world_wars_question\<close> catches every exception of its own
  and returns \<^verbatim>\<open>None\<close> then, so the generator is a function into \<open>option\<close>.
\<close>

definition next_question_step :: "fitter \<Rightarrow> generator \<Rightarrow> app_state \<Rightarrow> outcome" where
  "next_question_step fit gen s =
     (if current_question s = None \<and> num_questions s < MAX_QUESTIONS then
        (case train_adaptive_model fit (log_file s) of
           Inl e \<Rightarrow> Raised e s
         | Inr (model, enc) \<Rightarrow>
             (case select_adaptive_difficulty model enc of
                Inl e \<Rightarrow> Raised e s
              | Inr (t, d) \<Rightarrow>
                  (case gen t d of
                     None \<Rightarrow> Done s
                   | Some qd \<Rightarrow>
                       if formattable (num_questions s) then
                         Done (s\<lparr>current_question :=
                                   Some (qd\<lparr>q_topic := t, q_difficulty := d,
                                            q_question_id :=
                                              t @ ''_'' @ d @ ''_'' @ str_int (num_questions s)\<rparr>)\<rparr>)
                       else Unmodelled)))
      else Done s)"

text \<open>Lines 386-387: the four radio labels \<^verbatim>\<open>f"{i+1}. {opt}"\<close>.\<close>

definition options :: "question_data \<Rightarrow> string list" where
  "options q = [option1 q, option2 q, option3 q, option4 q]"

definition options_numbered :: "question_data \<Rightarrow> string list" where
  "options_numbered q =
     map (\<lambda>(i, opt). str_int (int i + 1) @ ''. '' @ opt)
         (zip [0..<length (options q)] (options q))"

text \<open>
  Lines 396-415, the submit handler. \<open>radio\<close> is the label the radio widget returns,
  and \<open>selected_of\<close> is line 397, \<^verbatim>\<open>int(choice.split(".")[0])\<close>. The statements run in
  the order of the source: the score is raised (line 404) or the message of the
  wrong-answer branch reads \<^verbatim>\<open>options[correct_answer-1]\<close> (line 406, IndexError for an
  answer key outside the list); then the explanation is read (line 411, KeyError if the
  key is missing); then the row is logged (line 414); and \<open>answered\<close> is set last (line
  415). The video lookup that follows (lines 417-438) only reads and displays, and is
  left out.
\<close>

definition selected_of :: "string \<Rightarrow> (py_error + int) option" where
  "selected_of radio =
     (case py_index (split_all (CHR ''.'') radio) 0 of
        Inl e \<Rightarrow> Some (Inl e)
      | Inr token \<Rightarrow> py_int token)"

definition submit_answer :: "bool \<Rightarrow> string \<Rightarrow> question_data \<Rightarrow> app_state \<Rightarrow> outcome" where
  "submit_answer submit_clicked radio q_data s =
     (if submit_clicked \<and> \<not> answered s then
        (case selected_of radio of
           None \<Rightarrow> Unmodelled
         | Some (Inl e) \<Rightarrow> Raised e s
         | Some (Inr selected) \<Rightarrow>
             let answered_correct = (if selected = correct_answer q_data then 1 else 0 :: int)
             in and_then
                  (if answered_correct \<noteq> 0 then Done (s\<lparr>score := score s + 1\<rparr>)
                   else (case py_index (options q_data) (correct_answer q_data - 1) of
                           Inl e \<Rightarrow> Raised e s
                         | Inr shown \<Rightarrow> Done s))
                  (\<lambda>s1. case explanation q_data of
                          None \<Rightarrow> Raised KeyError s1
                        | Some shown \<Rightarrow>
                            (case log_result (q_topic q_data) (q_difficulty q_data)
                                    answered_correct selected (q_question_id q_data)
                                    (log_file s1) of
                               None \<Rightarrow> Unmodelled
                             | Some (Inl e) \<Rightarrow> Raised e s1
                             | Some (Inr f) \<Rightarrow> Done (s1\<lparr>log_file := f, answered := True\<rparr>))))
      else Done s)"

text \<open>Lines 441-448, the next-question handler (\<^verbatim>\<open>st.rerun()\<close> ends the run).\<close>

definition next_question :: "bool \<Rightarrow> app_state \<Rightarrow> outcome" where
  "next_question next_clicked s =
     (if answered s then
        (if next_clicked
         then Done (s\<lparr>num_questions := num_questions s + 1,
                      current_question := None, answered := False\<rparr>)
         else Done s)
      else Done s)"

text \<open>
  Lines 518-522: "Take Quiz Again" deletes the session variables; the run that
  \<^verbatim>\<open>st.rerun()\<close> starts initialises them again (lines 309-318). The log file stays.
\<close>

definition take_quiz_again :: "bool \<Rightarrow> app_state \<Rightarrow> outcome" where
  "take_quiz_again again_clicked s =
     (if again_clicked then Done (fresh_session (log_file s)) else Done s)"

text \<open>
  One run of the script for one user action: the log file is created if missing, a
  question is requested if none is pending, then either the question page (submit and
  next-question handlers) or the completion page (restart; the report download and the
  study tips change nothing) is shown. A button reads True only in the run its click
  started, and only where the script reaches it.
\<close>

definition script_run :: "fitter \<Rightarrow> generator \<Rightarrow> button \<Rightarrow> string \<Rightarrow> app_state \<Rightarrow> outcome" where
  "script_run fit gen b radio s0 =
     and_then (next_question_step fit gen (s0\<lparr>log_file := init_log_file (log_file s0)\<rparr>))
       (\<lambda>s. case current_question s of
               Some q_data \<Rightarrow>
                 if num_questions s < MAX_QUESTIONS then
                   and_then (submit_answer (b = Submit_Answer) radio q_data s)
                            (next_question (b = Next_Question))
                 else take_quiz_again (b = Take_Quiz_Again) s
             | None \<Rightarrow> take_quiz_again (b = Take_Quiz_Again) s)"

text \<open>
  The states a session can be in: a fresh one, and whatever a run leaves behind, whether
  the run ended or an exception stopped it.
\<close>

inductive reachable :: "app_state \<Rightarrow> bool" where
  fresh: "reachable (fresh_session f)"
| ended: "reachable s \<Longrightarrow> script_run fit gen b radio s = Done s' \<Longrightarrow> reachable s'"
| stopped: "reachable s \<Longrightarrow> script_run fit gen b radio s = Raised e s' \<Longrightarrow> reachable s'"

text \<open>
  The same, for the sessions in which no run was stopped by an exception after it had
  raised the score: every run ended, or was stopped with the score it started with.
\<close>

inductive orderly :: "app_state \<Rightarrow> bool" where
  fresh: "orderly (fresh_session f)"
| ended: "orderly s \<Longrightarrow> script_run fit gen b radio s = Done s' \<Longrightarrow> orderly s'"
| stopped: "orderly s \<Longrightarrow> script_run fit gen b radio s = Raised e s' \<Longrightarrow>
            score s' = score s \<Longrightarrow> orderly s'"

subsection \<open>Derived notions and concrete inputs\<close>

text \<open>
  The log of the specification's scenario: two answers on (World War I, Easy), one right
  and one wrong, and a right answer on (World War II, Hard).
\<close>

definition scenario_log :: "response_record list" where
  "scenario_log =
     [\<lparr>topic = ''World War I'', difficulty = ''Easy'', answered_correct = 1, choice = 2,
       question_id = ''World War I_Easy_0''\<rparr>,
      \<lparr>topic = ''World War I'', difficulty = ''Easy'', answered_correct = 0, choice = 3,
       question_id = ''World War I_Easy_1''\<rparr>,
      \<lparr>topic = ''World War II'', difficulty = ''Hard'', answered_correct = 1, choice = 1,
       question_id = ''World War II_Hard_2''\<rparr>]"

text \<open>
  What a run sees of the log: the rows \<^verbatim>\<open>pd.read_csv\<close> returns once the start-up
  lines have made sure that the file exists.
\<close>

definition stored_rows :: "log_store \<Rightarrow> response_record list" where
  "stored_rows f = (case read_csv (init_log_file f) of Inl e \<Rightarrow> [] | Inr rows \<Rightarrow> rows)"

text \<open>Two fitting routines that raise, and a question generator that always fails.\<close>

definition failing_fit :: fitter where
  "failing_fit X_enc y = Inl OtherException"

definition raising_fit :: fitter where
  "raising_fit X_enc y = Inl ValueError"

definition no_questions :: generator where
  "no_questions t d = None"

text \<open>
  The encoder fitted on the scenario log, and two stand-ins for a fitted model: a
  logistic model over the encoder's four columns (intercept \<open>ln 2\<close>, coefficients
  \<open>ln (1/2)\<close>, \<open>ln 2\<close>, \<open>ln 2\<close>, \<open>ln (1/4)\<close>, written through its odds so that every
  probability is a fraction; a row of another width raises, as \<^verbatim>\<open>predict_proba\<close>
  does), and a model whose every prediction raises.
\<close>

definition scenario_encoder :: encoder where
  "scenario_encoder = enc_fit (feature_columns scenario_log)"

fun example_model :: model where
  "example_model [a, b, c, d] =
     (let odds = 2 * (1 / 2) ^ a * 2 ^ b * 2 ^ c * (1 / 4) ^ d in Inr (odds / (1 + odds)))"
| "example_model x = Inl ValueError"

definition raising_model :: model where
  "raising_model x = Inl OtherException"

text \<open>
  The enumeration order of the nine combinations, topics in the outer position and
  difficulties in the inner one, and the dictionary entry of one combination.
\<close>

definition combinations :: "(string \<times> string) list" where
  "combinations = List.product topics difficulties"

definition prediction_entry :: "model \<Rightarrow> encoder \<Rightarrow> string \<times> string \<Rightarrow> string \<times> real" where
  "prediction_entry m enc c = (combo_key (fst c) (snd c), predicted m enc (fst c) (snd c))"

text \<open>
  A question as the generator could return it and the same question without its
  explanation, generators that always return the one or the other, a fitting routine
  that always succeeds, and the sessions they lead to: the fresh session after its
  first run (a question is pending), and the same after the right answer was submitted.
\<close>

definition example_question :: question_data where
  "example_question =
     \<lparr>question = ''In which year did World War I begin?'',
      option1 = ''1905'', option2 = ''1939'', option3 = ''1914'', option4 = ''1918'',
      correct_answer = 3,
      explanation = Some ''World War I began in 1914.'',
      q_topic = [], q_difficulty = [], q_question_id = []\<rparr>"

definition example_generator :: generator where
  "example_generator t d = Some example_question"

definition unexplained_generator :: generator where
  "unexplained_generator t d = Some (example_question\<lparr>explanation := None\<rparr>)"

definition example_fit :: fitter where
  "example_fit X_enc y = Inr example_model"

definition pending_question :: question_data where
  "pending_question =
     example_question\<lparr>q_topic := ''World War I'', q_difficulty := ''Easy'',
                      q_question_id := ''World War I_Easy_0''\<rparr>"

definition pending_session :: app_state where
  "pending_session =
     \<lparr>score = 0, current_question = Some pending_question, answered = False,
      num_questions = 0, log_file = Some []\<rparr>"

definition answered_session :: app_state where
  "answered_session =
     \<lparr>score = 1, current_question = Some pending_question, answered = True,
      num_questions = 0,
      log_file = Some [\<lparr>topic = ''World War I'', difficulty = ''Easy'', answered_correct = 1,
                        choice = 3, question_id = ''World War I_Easy_0''\<rparr>]\<rparr>"

text \<open>The state a run leaves behind, if the model gives the run an outcome.\<close>

fun state_after :: "outcome \<Rightarrow> app_state option" where
  "state_after (Done s) = Some s"
| "state_after (Raised e s) = Some s"
| "state_after Unmodelled = None"

text \<open>
  A session that starts like the one above, but with a question that lacks its
  explanation: after two clicks on "Submit Answer" with the right answer.
\<close>

definition unexplained_session :: app_state where
  "unexplained_session =
     \<lparr>score = 2,
      current_question = Some (pending_question\<lparr>explanation := None\<rparr>),
      answered = False, num_questions = 0, log_file = Some []\<rparr>"

text \<open>The bounds that hold in an orderly session.\<close>

definition session_bounds :: "app_state \<Rightarrow> bool" where
  "session_bounds s \<longleftrightarrow>
     0 \<le> score s \<and> 0 \<le> num_questions s \<and>
     score s \<le> num_questions s + (if answered s then 1 else 0) \<and>
     num_questions s + (if answered s then 1 else 0) \<le> MAX_QUESTIONS"

section \<open>Properties\<close>

subsection \<open>The log file as the script sees it\<close>

lemma stored_rows_simps [simp]:
  "stored_rows None = []" "stored_rows (Some rows) = rows"
  "stored_rows (init_log_file f) = stored_rows f"
  by (simp_all add: stored_rows_def init_log_file_def read_csv_def split: option.splits)

lemma init_log_file_Some [simp]: "init_log_file (Some rows) = Some rows"
  by (simp add: init_log_file_def)

lemma init_log_file_stored: "init_log_file f = Some (stored_rows f)"
  by (cases f) (simp_all add: init_log_file_def)

subsection \<open>Training\<close>

lemma nunique_lt_2_iff:
  "nunique ys < 2 \<longleftrightarrow> (\<forall>a\<in>set ys. \<forall>b\<in>set ys. a = b)"
proof -
  have "nunique ys = card (set ys)"
    by (simp add: nunique_def length_remdups_card_conv)
  moreover have "card (set ys) \<le> Suc 0 \<longleftrightarrow> (\<forall>a\<in>set ys. \<forall>b\<in>set ys. a = b)"
    by (rule card_le_Suc0_iff_eq) simp
  ultimately show ?thesis by auto
qed

lemma train_insufficient:
  assumes "length log_data < 3 \<or> nunique (map answered_correct log_data) < 2"
  shows "train_adaptive_model fit (Some log_data) = Inr (None, None)"
  using assms by (simp add: train_adaptive_model_def read_csv_def)

lemma train_sufficient:
  assumes "3 \<le> length log_data" and "2 \<le> nunique (map answered_correct log_data)"
  shows "train_adaptive_model fit (Some log_data) =
           (case fit (map (enc_transform (enc_fit (feature_columns log_data))) (feature_columns log_data))
                     (map answered_correct log_data) of
              Inl e \<Rightarrow> Inl e
            | Inr m \<Rightarrow> Inr (Some m, Some (enc_fit (feature_columns log_data))))"
  using assms by (simp add: train_adaptive_model_def read_csv_def Let_def)

text \<open>
  C1 as stated fails. The scenario log has three rows and both outcomes, and yet
  training on it returns no model when the fitting routine raises: the exception leaves
  \<^verbatim>\<open>train_adaptive_model\<close>.
\<close>

theorem train_returns_what_fit_returns_counterexample:
  "3 \<le> length scenario_log \<and>
   (\<exists>r\<in>set scenario_log. answered_correct r = 1) \<and>
   (\<exists>r\<in>set scenario_log. answered_correct r = 0) \<and>
   train_adaptive_model failing_fit (Some scenario_log) = Inl OtherException \<and>
   (\<forall>m enc. train_adaptive_model failing_fit (Some scenario_log) \<noteq> Inr (Some m, Some enc))"
proof -
  have l: "3 \<le> length scenario_log"
    by (simp add: scenario_log_def)
  have n: "2 \<le> nunique (map answered_correct scenario_log)"
    by (simp add: nunique_def scenario_log_def)
  have t: "train_adaptive_model failing_fit (Some scenario_log) = Inl OtherException"
    unfolding train_sufficient [OF l n] by (simp add: failing_fit_def)
  have "\<exists>r\<in>set scenario_log. answered_correct r = 1"
    "\<exists>r\<in>set scenario_log. answered_correct r = 0"
    by (simp_all add: scenario_log_def)
  with l t show ?thesis by simp
qed

text \<open>
  C1, amended. A log with fewer than three rows, or whose \<open>answered_correct\<close> values are
  all equal, trains to the null model \<^verbatim>\<open>(None, None)\<close>, for which the selector returns
  the default (World War I, Easy). A log with at least three rows that holds both a 1 and
  a 0 never trains to the null model: training hands the encoded rows to the fitting
  routine and returns the model fitted there together with the encoder, and it raises
  what the fitting routine raises.
\<close>

theorem train_returns_what_fit_returns:
  "(length log_data < 3 \<or>
      (\<forall>r\<in>set log_data. \<forall>r'\<in>set log_data. answered_correct r = answered_correct r')
    \<longrightarrow> train_adaptive_model fit (Some log_data) = Inr (None, None) \<and>
        select_adaptive_difficulty None None = Inr (''World War I'', ''Easy'')) \<and>
   (3 \<le> length log_data \<and> (\<exists>r\<in>set log_data. answered_correct r = 1) \<and>
      (\<exists>r\<in>set log_data. answered_correct r = 0)
    \<longrightarrow> train_adaptive_model fit (Some log_data) \<noteq> Inr (None, None) \<and>
        train_adaptive_model fit (Some log_data) =
          (case fit (map (enc_transform (enc_fit (feature_columns log_data)))
                         (feature_columns log_data))
                    (map answered_correct log_data) of
             Inl e \<Rightarrow> Inl e
           | Inr m \<Rightarrow> Inr (Some m, Some (enc_fit (feature_columns log_data)))))"
proof (intro conjI impI)
  assume a: "length log_data < 3 \<or>
      (\<forall>r\<in>set log_data. \<forall>r'\<in>set log_data. answered_correct r = answered_correct r')"
  then have "length log_data < 3 \<or> nunique (map answered_correct log_data) < 2"
    unfolding nunique_lt_2_iff by auto
  then show "train_adaptive_model fit (Some log_data) = Inr (None, None)"
    by (rule train_insufficient)
  show "select_adaptive_difficulty None None = Inr (''World War I'', ''Easy'')"
    by (simp add: select_adaptive_difficulty_def)
next
  assume b: "3 \<le> length log_data \<and> (\<exists>r\<in>set log_data. answered_correct r = 1) \<and>
      (\<exists>r\<in>set log_data. answered_correct r = 0)"
  then obtain r r' where rr: "r \<in> set log_data" "answered_correct r = 1"
      "r' \<in> set log_data" "answered_correct r' = 0"
    by blast
  have "\<not> nunique (map answered_correct log_data) < 2"
  proof
    assume "nunique (map answered_correct log_data) < 2"
    then have "\<forall>a\<in>set (map answered_correct log_data).
                 \<forall>b\<in>set (map answered_correct log_data). a = b"
      by (simp only: nunique_lt_2_iff)
    moreover have "answered_correct r \<in> set (map answered_correct log_data)"
      "answered_correct r' \<in> set (map answered_correct log_data)"
      using rr by simp_all
    ultimately have "answered_correct r = answered_correct r'" by blast
    with rr show False by simp
  qed
  with b have c: "3 \<le> length log_data" "2 \<le> nunique (map answered_correct log_data)"
    by simp_all
  show "train_adaptive_model fit (Some log_data) \<noteq> Inr (None, None)"
    unfolding train_sufficient [OF c] by (simp split: sum.splits)
  show "train_adaptive_model fit (Some log_data) =
          (case fit (map (enc_transform (enc_fit (feature_columns log_data)))
                         (feature_columns log_data))
                    (map answered_correct log_data) of
             Inl e \<Rightarrow> Inl e
           | Inr m \<Rightarrow> Inr (Some m, Some (enc_fit (feature_columns log_data))))"
    by (rule train_sufficient [OF c])
qed

theorem train_returns_what_fit_returns_witness:
  "train_adaptive_model example_fit (Some (take 2 scenario_log)) = Inr (None, None) \<and>
   train_adaptive_model example_fit (Some (replicate 5 (hd scenario_log))) = Inr (None, None) \<and>
   select_adaptive_difficulty None None = Inr (''World War I'', ''Easy'') \<and>
   train_adaptive_model example_fit (Some scenario_log) =
     Inr (Some example_model, Some (enc_fit (feature_columns scenario_log))) \<and>
   train_adaptive_model raising_fit (Some scenario_log) = Inl ValueError"
proof -
  have short: "length (take 2 scenario_log) < 3"
    by (simp add: scenario_log_def)
  have same: "\<forall>r\<in>set (replicate 5 (hd scenario_log)).
                \<forall>r'\<in>set (replicate 5 (hd scenario_log)).
                  answered_correct r = answered_correct r'"
    by simp
  have long: "3 \<le> length scenario_log"
    by (simp add: scenario_log_def)
  have one: "\<exists>r\<in>set scenario_log. answered_correct r = 1"
    by (simp add: scenario_log_def)
  have zero: "\<exists>r\<in>set scenario_log. answered_correct r = 0"
    by (simp add: scenario_log_def)
  from short train_returns_what_fit_returns [of "take 2 scenario_log" example_fit]
  have 1: "train_adaptive_model example_fit (Some (take 2 scenario_log)) = Inr (None, None)"
    and 3: "select_adaptive_difficulty None None = Inr (''World War I'', ''Easy'')"
    by blast+
  from same train_returns_what_fit_returns [of "replicate 5 (hd scenario_log)" example_fit]
  have 2: "train_adaptive_model example_fit (Some (replicate 5 (hd scenario_log))) =
      Inr (None, None)"
    by blast
  from long one zero train_returns_what_fit_returns [of scenario_log example_fit]
  have 4: "train_adaptive_model example_fit (Some scenario_log) =
     Inr (Some example_model, Some (enc_fit (feature_columns scenario_log)))"
    by (simp add: example_fit_def)
  from long one zero train_returns_what_fit_returns [of scenario_log raising_fit]
  have 5: "train_adaptive_model raising_fit (Some scenario_log) = Inl ValueError"
    by (simp add: raising_fit_def)
  from 1 2 3 4 5 show ?thesis by simp
qed

subsection \<open>A fit that raises\<close>

text \<open>
  C9 as stated fails: on the scenario log, which has three rows and both outcomes, a
  fitting routine that raises makes \<^verbatim>\<open>train_adaptive_model\<close> raise too. No null model
  is returned, and the run of the script stops with the exception before any topic is
  selected.
\<close>

theorem fit_failure_is_raised_counterexample:
  "train_adaptive_model failing_fit (Some scenario_log) = Inl OtherException \<and>
   train_adaptive_model failing_fit (Some scenario_log) \<noteq> Inr (None, None) \<and>
   script_run failing_fit no_questions No_Button [] (fresh_session (Some scenario_log)) =
     Raised OtherException (fresh_session (Some scenario_log))"
proof -
  have n: "nunique (map answered_correct scenario_log) = 2"
    by (simp add: nunique_def scenario_log_def)
  have l: "3 \<le> length scenario_log"
    by (simp add: scenario_log_def)
  have n2: "2 \<le> nunique (map answered_correct scenario_log)"
    using n by simp
  have t: "train_adaptive_model failing_fit (Some scenario_log) = Inl OtherException"
    unfolding train_sufficient [OF l n2] by (simp add: failing_fit_def)
  have "fresh_session (Some scenario_log)\<lparr>log_file := init_log_file (Some scenario_log)\<rparr> = fresh_session (Some scenario_log)"
    by (simp add: fresh_session_def)
  then show ?thesis
    using t by (simp add: script_run_def next_question_step_def) (simp add: fresh_session_def MAX_QUESTIONS_def)
qed

text \<open>
  C9, amended. \<^verbatim>\<open>train_adaptive_model\<close> has no exception handler: when the log has at
  least three rows and two distinct outcomes and the fitting routine raises \<open>e\<close>, training
  raises \<open>e\<close> to its caller, and a run that needs a new question stops with \<open>e\<close> and
  leaves the session as it was. The null model stands for insufficient data only.
\<close>

theorem fit_failure_is_raised:
  assumes "3 \<le> length log_data"
    and "2 \<le> nunique (map answered_correct log_data)"
    and "fit (map (enc_transform (enc_fit (feature_columns log_data))) (feature_columns log_data))
             (map answered_correct log_data) = Inl e"
  shows "train_adaptive_model fit (Some log_data) = Inl e \<and>
         (current_question s = None \<and> num_questions s < MAX_QUESTIONS \<and>
            log_file s = Some log_data
          \<longrightarrow> script_run fit gen b radio s = Raised e s)"
proof -
  have t: "train_adaptive_model fit (Some log_data) = Inl e"
    using assms by (simp add: train_sufficient)
  show ?thesis
  proof (intro conjI impI)
    show "train_adaptive_model fit (Some log_data) = Inl e" by (rule t)
  next
    assume a: "current_question s = None \<and> num_questions s < MAX_QUESTIONS \<and>
            log_file s = Some log_data"
    then have "s\<lparr>log_file := init_log_file (log_file s)\<rparr> = s" by simp
    with a t show "script_run fit gen b radio s = Raised e s"
      by (simp add: script_run_def next_question_step_def)
  qed
qed

theorem fit_failure_is_raised_witness:
  "train_adaptive_model failing_fit (Some scenario_log) = Inl OtherException \<and>
   script_run failing_fit no_questions Study_Tips [] (fresh_session (Some scenario_log)) =
     Raised OtherException (fresh_session (Some scenario_log))"
proof -
  have 1: "3 \<le> length scenario_log"
    by (simp add: scenario_log_def)
  have 2: "2 \<le> nunique (map answered_correct scenario_log)"
    by (simp add: nunique_def scenario_log_def)
  have 3: "failing_fit (map (enc_transform (enc_fit (feature_columns scenario_log))) (feature_columns scenario_log))
             (map answered_correct scenario_log) = Inl OtherException"
    by (simp add: failing_fit_def)
  have 4: "current_question (fresh_session (Some scenario_log)) = None \<and>
     num_questions (fresh_session (Some scenario_log)) < MAX_QUESTIONS \<and>
     log_file (fresh_session (Some scenario_log)) = Some scenario_log"
    by (simp add: fresh_session_def MAX_QUESTIONS_def)
  from 1 2 3 4
    fit_failure_is_raised [of scenario_log failing_fit OtherException
      "fresh_session (Some scenario_log)" no_questions Study_Tips "[]"]
  show ?thesis by blast
qed

subsection \<open>Selection\<close>

lemma combinations_eq:
  "combinations =
     [(''World War I'', ''Easy''), (''World War I'', ''Medium''), (''World War I'', ''Hard''),
      (''World War II'', ''Easy''), (''World War II'', ''Medium''), (''World War II'', ''Hard''),
      (''World Wars General'', ''Easy''), (''World Wars General'', ''Medium''),
      (''World Wars General'', ''Hard'')]"
  by (simp add: combinations_def topics_def difficulties_def)

lemma fill_predictions_eq:
  "fill_predictions m enc = map (prediction_entry m enc) combinations"
  unfolding combinations_eq
  by (simp add: fill_predictions_def topics_def difficulties_def combo_key_def prediction_entry_def)

lemma split_once_key:
  "CHR ''_'' \<notin> set t \<Longrightarrow> split_once (CHR ''_'') (t @ CHR ''_'' # d) = [t, d]"
  by (induction t) auto

lemma topics_no_underscore: "t \<in> set topics \<Longrightarrow> CHR ''_'' \<notin> set t"
  by (auto simp: topics_def)

lemma split_combo_key:
  "t \<in> set topics \<Longrightarrow> unpack2 (split_once (CHR ''_'') (combo_key t d)) = Inr (t, d)"
  by (simp add: combo_key_def split_once_key topics_no_underscore)

lemma min_scan_first_minimum:
  "\<exists>pre post v. (bk, bv) # kvs = pre @ (min_scan (bk, bv) kvs, v) # post \<and>
     (\<forall>x\<in>set pre. v < snd x) \<and> (\<forall>x\<in>set post. v \<le> snd x)"
proof (induction kvs arbitrary: bk bv)
  case Nil
  have "[(bk, bv)] = [] @ (bk, bv) # [] \<and>
     (\<forall>x\<in>set []. bv < snd x) \<and> (\<forall>x\<in>set []. bv \<le> snd x)"
    by simp
  moreover have "min_scan (bk, bv) [] = bk" by simp
  ultimately show ?case by metis
next
  case (Cons kv kvs)
  obtain k1 v1 where kv: "kv = (k1, v1)" by (cases kv)
  show ?case
  proof (cases "v1 < bv")
    case True
    then have ms: "min_scan (bk, bv) (kv # kvs) = min_scan (k1, v1) kvs"
      by (simp add: kv)
    from Cons.IH [of k1 v1] obtain pre post v where
      d: "(k1, v1) # kvs = pre @ (min_scan (k1, v1) kvs, v) # post"
      and lo: "\<forall>x\<in>set pre. v < snd x" and hi: "\<forall>x\<in>set post. v \<le> snd x"
      by blast
    have "v \<le> v1"
    proof (cases pre)
      case Nil
      with d show ?thesis by simp
    next
      case (Cons p ps)
      with d have "p = (k1, v1)" by simp
      with Cons lo show ?thesis by force
    qed
    with True have "v < bv" by simp
    with lo have lo': "\<forall>x\<in>set ((bk, bv) # pre). v < snd x" by simp
    from d have "(bk, bv) # kv # kvs = ((bk, bv) # pre) @ (min_scan (k1, v1) kvs, v) # post"
      by (simp add: kv)
    with lo' hi show ?thesis
      unfolding ms by blast
  next
    case False
    then have ms: "min_scan (bk, bv) (kv # kvs) = min_scan (bk, bv) kvs"
      by (simp add: kv)
    from Cons.IH [of bk bv] obtain pre post v where
      d: "(bk, bv) # kvs = pre @ (min_scan (bk, bv) kvs, v) # post"
      and lo: "\<forall>x\<in>set pre. v < snd x" and hi: "\<forall>x\<in>set post. v \<le> snd x"
      by blast
    show ?thesis
    proof (cases pre)
      case Nil
      have "(bk, bv) # kvs = (min_scan (bk, bv) kvs, v) # post"
        using d unfolding Nil append_Nil .
      then have e: "min_scan (bk, bv) kvs = bk" "v = bv" "post = kvs"
        by auto
      from e have "(bk, bv) # kv # kvs = [] @ (min_scan (bk, bv) kvs, bv) # (kv # kvs)"
        by simp
      moreover have "\<forall>x\<in>set []. bv < snd x" by simp
      moreover have "\<forall>x\<in>set (kv # kvs). bv \<le> snd x"
        using hi e False by (simp add: kv)
      ultimately show ?thesis
        unfolding ms by blast
    next
      case (Cons p ps)
      with d have p: "p = (bk, bv)" and k: "kvs = ps @ (min_scan (bk, bv) kvs, v) # post"
        by auto
      from Cons p lo have "v < bv" by force
      with False have "v < v1" by simp
      from k have "(bk, bv) # kv # kvs = ((bk, bv) # kv # ps) @ (min_scan (bk, bv) kvs, v) # post"
        by simp
      moreover have "\<forall>x\<in>set ((bk, bv) # kv # ps). v < snd x"
        using lo Cons \<open>v < v1\<close> \<open>v < bv\<close> by (simp add: kv)
      ultimately show ?thesis
        using hi unfolding ms by blast
    qed
  qed
qed

lemma select_first_minimum:
  "\<exists>t d pre post.
     select_adaptive_difficulty (Some m) (Some e) = Inr (t, d) \<and>
     combinations = pre @ (t, d) # post \<and>
     (\<forall>c\<in>set pre. predicted m e t d < predicted m e (fst c) (snd c)) \<and>
     (\<forall>c\<in>set post. predicted m e t d \<le> predicted m e (fst c) (snd c))"
proof -
  obtain c0 cs where cs: "combinations = c0 # cs"
    by (simp add: combinations_eq)
  let ?f = "prediction_entry m e"
  let ?k = "min_scan (?f c0) (map ?f cs)"
  have mk: "min_key (fill_predictions m e) = Inr ?k"
    by (simp add: fill_predictions_eq cs min_key_def)
  from min_scan_first_minimum [of "fst (?f c0)" "snd (?f c0)" "map ?f cs"]
  obtain pre' post' v where
    d: "map ?f combinations = pre' @ (?k, v) # post'"
    and lo: "\<forall>x\<in>set pre'. v < snd x" and hi: "\<forall>x\<in>set post'. v \<le> snd x"
    unfolding cs by auto
  from d obtain pre c post where
    sp: "combinations = pre @ c # post" and pre: "pre' = map ?f pre"
    and c: "?f c = (?k, v)" and post: "post' = map ?f post"
    by (auto simp: map_eq_append_conv map_eq_Cons_conv)
  obtain t d where td: "c = (t, d)" by (cases c)
  have "(t, d) \<in> set combinations" unfolding sp td by simp
  then have tin: "t \<in> set topics" by (auto simp: combinations_def)
  from c td have k: "?k = combo_key t d" and v: "v = predicted m e t d"
    by (simp_all add: prediction_entry_def)
  have "select_adaptive_difficulty (Some m) (Some e) = Inr (t, d)"
    using mk k tin by (simp add: select_adaptive_difficulty_def split_combo_key)
  moreover have "\<forall>c\<in>set pre. predicted m e t d < predicted m e (fst c) (snd c)"
    using lo pre v by (simp add: prediction_entry_def)
  moreover have "\<forall>c\<in>set post. predicted m e t d \<le> predicted m e (fst c) (snd c)"
    using hi post v by (simp add: prediction_entry_def)
  ultimately show ?thesis using sp td by blast
qed

lemma scenario_encoder_eq:
  "scenario_encoder =
     \<lparr>topic_categories = [''World War I'', ''World War II''],
      difficulty_categories = [''Easy'', ''Hard'']\<rparr>"
  by (simp add: scenario_encoder_def enc_fit_def feature_columns_def scenario_log_def)

lemma predicted_example:
  "predicted example_model scenario_encoder ''World War I'' ''Easy'' = 2 / 3"
  "predicted example_model scenario_encoder ''World War I'' ''Medium'' = 1 / 2"
  "predicted example_model scenario_encoder ''World War I'' ''Hard'' = 1 / 5"
  "predicted example_model scenario_encoder ''World War II'' ''Easy'' = 8 / 9"
  "predicted example_model scenario_encoder ''World War II'' ''Medium'' = 4 / 5"
  "predicted example_model scenario_encoder ''World War II'' ''Hard'' = 1 / 2"
  "predicted example_model scenario_encoder ''World Wars General'' ''Easy'' = 4 / 5"
  "predicted example_model scenario_encoder ''World Wars General'' ''Medium'' = 2 / 3"
  "predicted example_model scenario_encoder ''World Wars General'' ''Hard'' = 1 / 3"
  by (simp_all add: predicted_def scenario_encoder_eq enc_transform_def one_hot_def)

lemma select_example:
  "select_adaptive_difficulty (Some example_model) (Some scenario_encoder) =
     Inr (''World War I'', ''Hard'')"
  by (simp add: select_adaptive_difficulty_def fill_predictions_eq combinations_eq
      prediction_entry_def predicted_example min_key_def combo_key_def)

lemma select_raising:
  "select_adaptive_difficulty (Some raising_model) (Some scenario_encoder) =
     Inr (''World War I'', ''Easy'')"
  by (simp add: select_adaptive_difficulty_def fill_predictions_eq combinations_eq
      prediction_entry_def predicted_def raising_model_def min_key_def combo_key_def)

lemma select_in_combinations:
  "\<exists>c\<in>set combinations. select_adaptive_difficulty (Some m) (Some e) = Inr c"
proof -
  from select_first_minimum [of m e] obtain t d pre post where
    s: "select_adaptive_difficulty (Some m) (Some e) = Inr (t, d)"
    and c: "combinations = pre @ (t, d) # post"
    by blast
  have "(t, d) \<in> set combinations" unfolding c by simp
  with s show ?thesis by blast
qed

lemma predicted_cases:
  "predicted m e t d =
     (case m (enc_transform e (t, d)) of Inr prob \<Rightarrow> prob | Inl err \<Rightarrow> 1 / 2)"
  by (simp add: predicted_def split: sum.splits)

lemma one_hot_unknown: "v \<notin> set cats \<Longrightarrow> one_hot cats v = replicate (length cats) 0"
  by (induction cats) (auto simp: one_hot_def)

text \<open>
  C2. For a non-null model the dictionary \<^verbatim>\<open>predictions\<close> holds the nine combinations
  in enumeration order (topics outer, difficulties inner), and the selector returns a
  combination whose predicted probability is at most that of every combination and
  strictly below that of every combination enumerated before it: the first minimum.
  The result is a function of the model and the encoder alone.
\<close>

theorem select_returns_first_minimum:
  "fill_predictions m e = map (prediction_entry m e) combinations \<and>
   length combinations = 9 \<and>
   (\<exists>t d pre post.
      select_adaptive_difficulty (Some m) (Some e) = Inr (t, d) \<and>
      combinations = pre @ (t, d) # post \<and>
      (\<forall>c\<in>set combinations. predicted m e t d \<le> predicted m e (fst c) (snd c)) \<and>
      (\<forall>c\<in>set pre. predicted m e t d < predicted m e (fst c) (snd c)))"
proof -
  from select_first_minimum [of m e] obtain t d pre post where
    s: "select_adaptive_difficulty (Some m) (Some e) = Inr (t, d)"
    and c: "combinations = pre @ (t, d) # post"
    and lo: "\<forall>c\<in>set pre. predicted m e t d < predicted m e (fst c) (snd c)"
    and hi: "\<forall>c\<in>set post. predicted m e t d \<le> predicted m e (fst c) (snd c)"
    by blast
  have all: "\<forall>c\<in>set combinations. predicted m e t d \<le> predicted m e (fst c) (snd c)"
  proof
    fix x assume "x \<in> set combinations"
    then have "x \<in> set pre \<or> x = (t, d) \<or> x \<in> set post"
      unfolding c by auto
    with lo hi show "predicted m e t d \<le> predicted m e (fst x) (snd x)"
      by (auto simp: less_imp_le)
  qed
  have "length combinations = 9"
    by (simp add: combinations_eq)
  with s c lo all show ?thesis
    using fill_predictions_eq [of m e] by blast
qed

theorem select_returns_first_minimum_witness:
  "select_adaptive_difficulty (Some example_model) (Some scenario_encoder) =
     Inr (''World War I'', ''Hard'') \<and>
   predicted example_model scenario_encoder ''World War I'' ''Hard''
     \<le> predicted example_model scenario_encoder ''World Wars General'' ''Hard'' \<and>
   select_adaptive_difficulty (Some raising_model) (Some scenario_encoder) =
     Inr (''World War I'', ''Easy'')"
proof -
  from select_returns_first_minimum [of example_model scenario_encoder] obtain t d where
    s: "select_adaptive_difficulty (Some example_model) (Some scenario_encoder) = Inr (t, d)"
    and all: "\<forall>c\<in>set combinations. predicted example_model scenario_encoder t d
                \<le> predicted example_model scenario_encoder (fst c) (snd c)"
    by blast
  from s have td: "t = ''World War I''" "d = ''Hard''"
    by (simp_all add: select_example)
  have "(''World Wars General'', ''Hard'') \<in> set combinations"
    by (simp add: combinations_eq)
  with all have "predicted example_model scenario_encoder t d
      \<le> predicted example_model scenario_encoder ''World Wars General'' ''Hard''"
    by fastforce
  with td show ?thesis
    by (simp add: select_example select_raising)
qed

text \<open>
  C7 as stated fails. After training on the scenario log, (World War I, Hard) was never
  seen as a combination and neither part of (World Wars General, Medium) was seen at
  all, and yet their dictionary entries are the model's own predictions 1/5 and 2/3,
  not 0.5: with \<^verbatim>\<open>handle_unknown="ignore"\<close> the encoder does not raise on them.
\<close>

theorem half_is_used_on_exception_only_counterexample:
  "(''World War I'', ''Hard'') \<notin> set (feature_columns scenario_log) \<and>
   ''World Wars General'' \<notin> set (map topic scenario_log) \<and>
   ''Medium'' \<notin> set (map difficulty scenario_log) \<and>
   train_adaptive_model (\<lambda>X_enc y. Inr example_model) (Some scenario_log) =
     Inr (Some example_model, Some scenario_encoder) \<and>
   map_of (fill_predictions example_model scenario_encoder)
          (combo_key ''World War I'' ''Hard'') = Some (1 / 5) \<and>
   map_of (fill_predictions example_model scenario_encoder)
          (combo_key ''World Wars General'' ''Medium'') = Some (2 / 3) \<and>
   (1 / 5 :: real) \<noteq> 1 / 2 \<and> (2 / 3 :: real) \<noteq> 1 / 2"
proof -
  have l: "3 \<le> length scenario_log"
    by (simp add: scenario_log_def)
  have n: "2 \<le> nunique (map answered_correct scenario_log)"
    by (simp add: nunique_def scenario_log_def)
  have "train_adaptive_model (\<lambda>X_enc y. Inr example_model) (Some scenario_log) =
     Inr (Some example_model, Some scenario_encoder)"
    unfolding train_sufficient [OF l n] by (simp add: scenario_encoder_def)
  moreover have "(''World War I'', ''Hard'') \<notin> set (feature_columns scenario_log)"
    "''World Wars General'' \<notin> set (map topic scenario_log)"
    "''Medium'' \<notin> set (map difficulty scenario_log)"
    by (simp_all add: feature_columns_def scenario_log_def)
  moreover have "map_of (fill_predictions example_model scenario_encoder)
          (combo_key ''World War I'' ''Hard'') = Some (1 / 5)"
    "map_of (fill_predictions example_model scenario_encoder)
          (combo_key ''World Wars General'' ''Medium'') = Some (2 / 3)"
    by (simp_all add: fill_predictions_eq combinations_eq prediction_entry_def
        predicted_example combo_key_def)
  ultimately show ?thesis by simp
qed

text \<open>
  C7, amended. The neutral probability 0.5 is stored for a combination exactly when
  computing its prediction raises; otherwise the model's prediction is stored. A
  combination that was not seen in training does not raise: the encoder turns an unseen
  topic and an unseen difficulty into a row of zeros, which the model then scores. In
  both cases the selector does not fail: it returns one of the nine combinations.
\<close>

theorem half_is_used_on_exception_only:
  "(\<forall>c\<in>set combinations.
      map_of (fill_predictions m e) (combo_key (fst c) (snd c)) =
        Some (case m (enc_transform e c) of Inr prob \<Rightarrow> prob | Inl err \<Rightarrow> 1 / 2)) \<and>
   (t \<notin> set (topic_categories e) \<and> d \<notin> set (difficulty_categories e) \<longrightarrow>
      enc_transform e (t, d) =
        replicate (length (topic_categories e) + length (difficulty_categories e)) 0) \<and>
   (\<exists>c\<in>set combinations. select_adaptive_difficulty (Some m) (Some e) = Inr c)"
proof (intro conjI impI)
  show "\<forall>c\<in>set combinations.
      map_of (fill_predictions m e) (combo_key (fst c) (snd c)) =
        Some (case m (enc_transform e c) of Inr prob \<Rightarrow> prob | Inl err \<Rightarrow> 1 / 2)"
    by (simp add: fill_predictions_eq combinations_eq prediction_entry_def combo_key_def
        predicted_cases)
next
  assume "t \<notin> set (topic_categories e) \<and> d \<notin> set (difficulty_categories e)"
  then show "enc_transform e (t, d) =
        replicate (length (topic_categories e) + length (difficulty_categories e)) 0"
    by (simp add: enc_transform_def one_hot_unknown replicate_add)
next
  show "\<exists>c\<in>set combinations. select_adaptive_difficulty (Some m) (Some e) = Inr c"
    by (rule select_in_combinations)
qed

theorem half_is_used_on_exception_only_witness:
  "map_of (fill_predictions raising_model scenario_encoder) ''World War II_Hard'' = Some (1 / 2) \<and>
   map_of (fill_predictions example_model scenario_encoder) ''World War II_Easy'' = Some (8 / 9) \<and>
   enc_transform scenario_encoder (''World Wars General'', ''Medium'') = [0, 0, 0, 0]"
proof -
  have c: "(''World War II'', ''Hard'') \<in> set combinations"
    "(''World War II'', ''Easy'') \<in> set combinations"
    by (simp_all add: combinations_eq)
  have u: "''World Wars General'' \<notin> set (topic_categories scenario_encoder) \<and>
      ''Medium'' \<notin> set (difficulty_categories scenario_encoder)"
    by (simp add: scenario_encoder_eq)
  from half_is_used_on_exception_only [of raising_model scenario_encoder] c(1)
  have 1: "map_of (fill_predictions raising_model scenario_encoder)
             (combo_key (fst (''World War II'', ''Hard'')) (snd (''World War II'', ''Hard''))) =
           Some (case raising_model (enc_transform scenario_encoder (''World War II'', ''Hard'')) of
                   Inr prob \<Rightarrow> prob | Inl err \<Rightarrow> 1 / 2)"
    by blast
  from half_is_used_on_exception_only [of example_model scenario_encoder
      "''World Wars General''" "''Medium''"] c(2) u
  have 2: "map_of (fill_predictions example_model scenario_encoder)
             (combo_key (fst (''World War II'', ''Easy'')) (snd (''World War II'', ''Easy''))) =
           Some (case example_model (enc_transform scenario_encoder (''World War II'', ''Easy'')) of
                   Inr prob \<Rightarrow> prob | Inl err \<Rightarrow> 1 / 2)"
    and 3: "enc_transform scenario_encoder (''World Wars General'', ''Medium'') =
        replicate (length (topic_categories scenario_encoder) +
                   length (difficulty_categories scenario_encoder)) 0"
    by blast+
  from 1 have "map_of (fill_predictions raising_model scenario_encoder) ''World War II_Hard'' = Some (1 / 2)"
    by (simp add: combo_key_def raising_model_def)
  moreover from 2 have "map_of (fill_predictions example_model scenario_encoder) ''World War II_Easy'' = Some (8 / 9)"
    using predicted_example(4) by (simp add: combo_key_def predicted_cases)
  moreover from 3 have "enc_transform scenario_encoder (''World Wars General'', ''Medium'') = [0, 0, 0, 0]"
    by (simp add: scenario_encoder_eq numeral_eq_Suc)
  ultimately show ?thesis by simp
qed

text \<open>
  C10. No topic of the fixed set holds an underscore, so cutting the key
  \<^verbatim>\<open>f"{topic}_{difficulty}"\<close> at its first underscore gives back the topic and the
  difficulty, for each of the nine pairs; hence the selector, given a non-null model,
  returns a topic of the fixed set with a difficulty of the fixed set.
\<close>

theorem select_returns_fixed_combination:
  "(\<forall>t\<in>set topics. \<forall>d\<in>set difficulties.
      CHR ''_'' \<notin> set t \<and>
      unpack2 (split_once (CHR ''_'') (combo_key t d)) = Inr (t, d)) \<and>
   (\<exists>t\<in>set topics. \<exists>d\<in>set difficulties.
      select_adaptive_difficulty (Some m) (Some e) = Inr (t, d))"
proof (intro conjI ballI)
  fix t d assume "t \<in> set topics" "d \<in> set difficulties"
  then show "CHR ''_'' \<notin> set t" "unpack2 (split_once (CHR ''_'') (combo_key t d)) = Inr (t, d)"
    by (simp_all add: topics_no_underscore split_combo_key)
next
  from select_in_combinations [of m e] obtain t d where
    s: "select_adaptive_difficulty (Some m) (Some e) = Inr (t, d)"
    and "(t, d) \<in> set combinations"
    by auto
  then have "t \<in> set topics" "d \<in> set difficulties"
    by (auto simp: combinations_def)
  with s show "\<exists>t\<in>set topics. \<exists>d\<in>set difficulties.
      select_adaptive_difficulty (Some m) (Some e) = Inr (t, d)"
    by blast
qed

theorem select_returns_fixed_combination_witness:
  "''World Wars General'' \<in> set topics \<and> ''Medium'' \<in> set difficulties \<and>
   CHR ''_'' \<notin> set ''World Wars General'' \<and>
   unpack2 (split_once (CHR ''_'') (combo_key ''World Wars General'' ''Medium'')) =
     Inr (''World Wars General'', ''Medium'')"
proof -
  have 1: "''World Wars General'' \<in> set topics"
    by (simp add: topics_def)
  have 2: "''Medium'' \<in> set difficulties"
    by (simp add: difficulties_def)
  from 1 2 select_returns_fixed_combination [of example_model scenario_encoder]
  show ?thesis by blast
qed

subsection \<open>Writing the CSV text and reading it back\<close>

lemma split_all_no_sep: "sep \<notin> set l \<Longrightarrow> split_all sep l = [l]"
  by (induction l) auto

lemma split_all_append:
  "sep \<notin> set l \<Longrightarrow> split_all sep (l @ sep # rest) = l # split_all sep rest"
  by (induction l) auto

lemma plain_char_not_sep:
  "plain_char c \<Longrightarrow> c \<noteq> CHR '','' \<and> c \<noteq> CHR 0x0A"
  by (auto simp: plain_char_def)

lemma plain_first_char: "plain_first c \<Longrightarrow> plain_char c"
  by (auto simp: plain_first_def plain_char_def)

lemma plain_cell_chars: "plain_cell s \<Longrightarrow> c \<in> set s \<Longrightarrow> plain_char c"
  by (cases s) (auto simp: plain_cell_def list_all_iff plain_first_char)

lemma plain_cell_no_sep:
  assumes "plain_cell s"
  shows "CHR '','' \<notin> set s" and "CHR 0x0A \<notin> set s"
  using plain_cell_chars [OF assms] plain_char_not_sep by blast+

lemma digit_char_not_sep:
  "d < 10 \<Longrightarrow> digit_char d \<noteq> CHR '','' \<and> digit_char d \<noteq> CHR 0x0A \<and> digit_char d \<noteq> CHR ''-''"
proof -
  assume "d < 10"
  then have "d \<in> {0, 1, 2, 3, 4, 5, 6, 7, 8, 9}" by auto
  then show ?thesis by (auto simp: digit_char_def)
qed

lemma digit_of_digit_char: "d < 10 \<Longrightarrow> digit_of (digit_char d) = Some (int d)"
proof -
  assume "d < 10"
  then have "d \<in> {0, 1, 2, 3, 4, 5, 6, 7, 8, 9}" by auto
  then show ?thesis by (auto simp: digit_char_def digit_of_def)
qed

lemma str_nat_chars:
  "c \<in> set (str_nat n) \<Longrightarrow> c \<noteq> CHR '','' \<and> c \<noteq> CHR 0x0A \<and> c \<noteq> CHR ''-''"
proof (induction n rule: str_nat.induct)
  case (1 n)
  show ?case
  proof (cases "n < 10")
    case True
    with "1.prems" show ?thesis
      by (simp add: str_nat.simps [of n] digit_char_not_sep)
  next
    case False
    with "1.prems" have "c \<in> set (str_nat (n div 10)) \<or> c = digit_char (n mod 10)"
      by (auto simp: str_nat.simps [of n])
    then show ?thesis
      using "1.IH" [OF False] digit_char_not_sep [of "n mod 10"] by auto
  qed
qed

lemma str_nat_nonempty: "str_nat n \<noteq> []"
  by (subst str_nat.simps) simp

lemma str_int_no_sep: "CHR '','' \<notin> set (str_int i)" "CHR 0x0A \<notin> set (str_int i)"
  using str_nat_chars by (auto simp: str_int_def)

lemma digits_value_snoc:
  "digits_value acc (xs @ [c]) =
     (case digits_value acc xs of
        None \<Rightarrow> None
      | Some v \<Rightarrow> (case digit_of c of None \<Rightarrow> None | Some d \<Rightarrow> Some (10 * v + nat d)))"
  by (induction xs arbitrary: acc) (auto split: option.splits)

lemma digits_value_str_nat: "digits_value 0 (str_nat n) = Some n"
proof (induction n rule: str_nat.induct)
  case (1 n)
  show ?case
  proof (cases "n < 10")
    case True
    then show ?thesis
      by (simp add: str_nat.simps [of n] digit_of_digit_char)
  next
    case False
    have "digits_value 0 (str_nat n) =
        digits_value 0 (str_nat (n div 10) @ [digit_char (n mod 10)])"
      using False by (simp add: str_nat.simps [of n])
    also have "\<dots> = Some (10 * (n div 10) + n mod 10)"
      by (simp add: digits_value_snoc "1.IH" [OF False] digit_of_digit_char)
    finally show ?thesis by simp
  qed
qed

lemma str_nat_hd: "str_nat n = c # cs \<Longrightarrow> c \<noteq> CHR ''-''"
  using str_nat_chars [of c n] by simp

lemma int_cell_str_int:
  assumes "in_int64 i"
  shows "int_cell (str_int i) = Some i"
proof (cases "i < 0")
  case True
  then have "str_int i = CHR ''-'' # str_nat (nat (- i))"
    by (simp add: str_int_def)
  then show ?thesis
    using True assms by (simp add: int_cell_def digits_value_str_nat)
next
  case False
  then have s: "str_int i = str_nat (nat i)"
    by (simp add: str_int_def)
  obtain c cs where cs: "str_nat (nat i) = c # cs"
    using str_nat_nonempty [of "nat i"] by (cases "str_nat (nat i)") auto
  have "c \<noteq> CHR ''-''"
    using cs by (rule str_nat_hd)
  moreover have "digits_value 0 (c # cs) = Some (nat i)"
    using digits_value_str_nat [of "nat i"] cs by simp
  ultimately show ?thesis
    using False assms s cs by (simp add: int_cell_def)
qed

lemma split_render_row:
  assumes "plain_row r"
  shows "split_all (CHR '','') (render_row r) =
           [topic r, difficulty r, str_int (answered_correct r), str_int (choice r), question_id r]"
proof -
  from assms have p: "plain_cell (topic r)" "plain_cell (difficulty r)" "plain_cell (question_id r)"
    by (simp_all add: plain_row_def)
  show ?thesis
    unfolding render_row_def
    by (simp add: split_all_append split_all_no_sep plain_cell_no_sep [OF p(1)]
        plain_cell_no_sep [OF p(2)] plain_cell_no_sep [OF p(3)] str_int_no_sep
        del: split_all.simps)
qed

lemma parse_row_render_row:
  assumes "plain_row r"
  shows "parse_row (render_row r) = Some r"
  using assms
  by (simp add: parse_row_def split_render_row int_cell_str_int plain_row_def)

lemma render_row_no_newline:
  assumes "plain_row r"
  shows "CHR 0x0A \<notin> set (render_row r)"
proof -
  from assms have p: "plain_cell (topic r)" "plain_cell (difficulty r)" "plain_cell (question_id r)"
    by (simp_all add: plain_row_def)
  show ?thesis
    by (simp add: render_row_def plain_cell_no_sep [OF p(1)] plain_cell_no_sep [OF p(2)]
        plain_cell_no_sep [OF p(3)] str_int_no_sep)
qed

lemma split_lines:
  assumes "\<forall>l\<in>set ls. CHR 0x0A \<notin> set l"
  shows "split_all (CHR 0x0A) (concat (map (\<lambda>line. line @ [CHR 0x0A]) ls)) = ls @ [[]]"
  using assms by (induction ls) (simp_all add: split_all_append del: split_all.simps(2))

lemma those_parse_rows:
  "list_all plain_row rows \<Longrightarrow> those (map parse_row (map render_row rows)) = Some rows"
  by (induction rows) (simp_all add: parse_row_render_row)

lemma csv_header_no_newline: "CHR 0x0A \<notin> set csv_header"
  by (simp add: csv_header_def)

lemma from_csv_to_csv:
  assumes "list_all plain_row rows"
  shows "\<exists>csv. to_csv rows = Some csv \<and> from_csv csv = Some rows"
proof -
  let ?ls = "csv_header # map render_row rows"
  let ?csv = "concat (map (\<lambda>line. line @ [CHR 0x0A]) ?ls)"
  have t: "to_csv rows = Some ?csv"
    using assms by (simp add: to_csv_def)
  have "\<forall>l\<in>set ?ls. CHR 0x0A \<notin> set l"
    using assms csv_header_no_newline render_row_no_newline
    by (auto simp: list_all_iff)
  then have "split_all (CHR 0x0A) ?csv = ?ls @ [[]]"
    by (rule split_lines)
  then have "from_csv ?csv = those (map parse_row (map render_row rows))"
    by (simp add: from_csv_def butlast_append del: split_all.simps)
  with t those_parse_rows [OF assms] show ?thesis by simp
qed

lemma log_result_plain:
  assumes "list_all plain_row rows"
    and "plain_row \<lparr>topic = t, difficulty = d, answered_correct = ac, choice = ch,
                     question_id = qid\<rparr>"
  shows "log_result t d ac ch qid (Some rows) =
           Some (Inr (Some (rows @ [\<lparr>topic = t, difficulty = d, answered_correct = ac,
                                     choice = ch, question_id = qid\<rparr>])))"
proof -
  let ?r = "\<lparr>topic = t, difficulty = d, answered_correct = ac, choice = ch, question_id = qid\<rparr>"
  have "list_all plain_row (rows @ [?r])"
    using assms by simp
  from from_csv_to_csv [OF this] obtain csv where
    "to_csv (rows @ [?r]) = Some csv" "from_csv csv = Some (rows @ [?r])"
    by blast
  then show ?thesis
    by (simp add: log_result_def read_csv_def)
qed

lemma log_result_cases:
  "log_result t d ac ch qid f = None \<or>
   log_result t d ac ch qid f = Some (Inl FileNotFoundError) \<and> f = None \<or>
   (\<exists>rows. f = Some rows \<and>
      list_all plain_row (rows @ [\<lparr>topic = t, difficulty = d, answered_correct = ac,
                                     choice = ch, question_id = qid\<rparr>]) \<and>
      log_result t d ac ch qid f =
        Some (Inr (Some (rows @ [\<lparr>topic = t, difficulty = d, answered_correct = ac,
                                  choice = ch, question_id = qid\<rparr>]))))"
proof (cases f)
  case None
  then show ?thesis by (simp add: log_result_def read_csv_def)
next
  case (Some rows)
  let ?r = "\<lparr>topic = t, difficulty = d, answered_correct = ac, choice = ch, question_id = qid\<rparr>"
  show ?thesis
  proof (cases "list_all plain_row (rows @ [?r])")
    case True
    then have "list_all plain_row rows" "plain_row ?r" by simp_all
    from log_result_plain [OF this] Some True show ?thesis by simp
  next
    case False
    then have "to_csv (rows @ [?r]) = None"
      by (simp add: to_csv_def)
    with Some show ?thesis by (simp add: log_result_def read_csv_def)
  qed
qed

subsection \<open>The session\<close>

lemma formattable_small: "\<bar>i\<bar> < 10 \<Longrightarrow> formattable i"
proof -
  assume "\<bar>i\<bar> < 10"
  moreover have "(10::int) ^ 1 \<le> 10 ^ max_str_digits"
    by (rule power_increasing) (simp_all add: max_str_digits_def)
  ultimately show ?thesis by (simp add: formattable_def)
qed

lemma options_numbered_eq:
  "options_numbered q =
     [''1. '' @ option1 q, ''2. '' @ option2 q, ''3. '' @ option3 q, ''4. '' @ option4 q]"
  by (simp add: options_numbered_def options_def upt_rec str_int_def str_nat.simps digit_char_def)

lemma py_int_digits:
  "py_int ''1'' = Some (Inr 1)" "py_int ''2'' = Some (Inr 2)"
  "py_int ''3'' = Some (Inr 3)" "py_int ''4'' = Some (Inr 4)"
  by (simp_all add: py_int_def is_ascii_def max_str_digits_def strip_def is_space_def
      parse_digits_def digit_of_def)

lemma first_token:
  "py_index (split_all (CHR ''.'') (c # CHR ''.'' # rest)) 0 =
     (if c = CHR ''.'' then Inr [] else Inr [c])"
  by (simp add: py_index_def split: list.splits)

lemma selected_of_label:
  "c \<noteq> CHR ''.'' \<Longrightarrow> selected_of (c # CHR ''.'' # rest) = py_int [c]"
  by (simp add: selected_of_def first_token del: split_all.simps)

lemma radio_label_selected:
  assumes "1 \<le> k" and "k \<le> 4"
  shows "selected_of (options_numbered q ! nat (k - 1)) = Some (Inr k)"
proof -
  from assms have "k = 1 \<or> k = 2 \<or> k = 3 \<or> k = 4" by arith
  then show ?thesis
    by (auto simp: options_numbered_eq selected_of_label py_int_digits)
qed

text \<open>
  Every label that the radio widget offers begins with its number and a dot, so the
  number that line 397 reads from the selected label is one of 1, 2, 3, 4.
\<close>

lemma radio_labels_select_one_to_four:
  assumes "radio \<in> set (options_numbered q)"
  shows "\<exists>k. selected_of radio = Some (Inr k) \<and> 1 \<le> k \<and> k \<le> 4"
proof -
  from assms have "selected_of radio = Some (Inr 1) \<or> selected_of radio = Some (Inr 2) \<or>
      selected_of radio = Some (Inr 3) \<or> selected_of radio = Some (Inr 4)"
    by (auto simp: options_numbered_eq selected_of_label py_int_digits)
  then show ?thesis by auto
qed

lemma in_int64_small: "- 10 \<le> i \<Longrightarrow> i \<le> 10 \<Longrightarrow> in_int64 i"
  by (simp add: in_int64_def)

lemma submit_answer_graded:
  assumes "selected_of radio = Some (Inr k)"
    and "\<not> answered s"
    and "log_file s = Some rows"
    and "k = correct_answer q \<or> (\<exists>shown. py_index (options q) (correct_answer q - 1) = Inr shown)"
    and "explanation q \<noteq> None"
    and "list_all plain_row rows"
    and "plain_row \<lparr>topic = q_topic q, difficulty = q_difficulty q,
                     answered_correct = (if k = correct_answer q then 1 else 0),
                     choice = k, question_id = q_question_id q\<rparr>"
  shows "submit_answer True radio q s =
           Done (s\<lparr>score := score s + (if k = correct_answer q then 1 else 0),
                   log_file := Some (rows @ [\<lparr>topic = q_topic q, difficulty = q_difficulty q,
                                               answered_correct = (if k = correct_answer q then 1 else 0),
                                               choice = k, question_id = q_question_id q\<rparr>]),
                   answered := True\<rparr>)"
proof -
  note w = log_result_plain [OF assms(6,7)]
  show ?thesis
    using assms(1-5) w by (auto simp: submit_answer_def)
qed

lemma answer_key_in_range:
  assumes "1 \<le> c" and "c \<le> 4"
  shows "\<exists>shown. py_index (options q) (c - 1) = Inr shown"
  using assms by (simp add: py_index_def options_def)

lemma first_run_pending:
  "script_run example_fit example_generator No_Button [] (fresh_session None) =
     Done pending_session"
  by (simp add: pending_session_def pending_question_def script_run_def
      next_question_step_def fresh_session_def
      init_log_file_def MAX_QUESTIONS_def train_adaptive_model_def read_csv_def
      select_adaptive_difficulty_def example_generator_def str_int_def str_nat.simps
      digit_char_def submit_answer_def next_question_def formattable_small)

lemma pending_session_fields:
  "current_question pending_session = Some pending_question"
  "\<not> answered pending_session"
  "num_questions pending_session < MAX_QUESTIONS"
  "score pending_session = 0"
  "log_file pending_session = Some []"
  by (simp_all add: pending_session_def MAX_QUESTIONS_def)

lemma pending_question_fields:
  "correct_answer pending_question = 3"
  "options_numbered pending_question = [''1. 1905'', ''2. 1939'', ''3. 1914'', ''4. 1918'']"
  "q_topic pending_question = ''World War I''"
  "q_difficulty pending_question = ''Easy''"
  "q_question_id pending_question = ''World War I_Easy_0''"
  "explanation pending_question \<noteq> None"
  by (simp_all add: pending_question_def example_question_def options_numbered_eq)

lemma plain_cells_of_pending_question:
  "plain_cell (q_topic pending_question)"
  "plain_cell (q_difficulty pending_question)"
  "plain_cell (q_question_id pending_question)"
  by (simp_all add: pending_question_fields plain_cell_def plain_first_def plain_char_def)

lemma next_question_step_after:
  assumes "state_after (next_question_step fit gen s) = Some s'"
  shows "score s' = score s" and "answered s' = answered s"
    and "num_questions s' = num_questions s" and "log_file s' = log_file s"
  using assms
  by (auto simp: next_question_step_def split: if_splits sum.splits prod.splits option.splits)

lemma submit_answer_Done:
  assumes "submit_answer c radio q s = Done s'"
  shows "s' = s \<or>
         (c \<and> \<not> answered s \<and> answered s' \<and> num_questions s' = num_questions s \<and>
          (score s' = score s \<or> score s' = score s + 1) \<and>
          (\<exists>rows r. log_file s = Some rows \<and> plain_row r \<and>
             log_file s' = Some (rows @ [r])))"
proof (cases "c \<and> \<not> answered s")
  case False
  with assms show ?thesis by (auto simp: submit_answer_def)
next
  case True
  from assms True obtain k where k: "selected_of radio = Some (Inr k)"
    by (auto simp: submit_answer_def split: option.splits sum.splits)
  let ?ac = "if k = correct_answer q then 1 else 0 :: int"
  let ?s1 = "if k = correct_answer q then s\<lparr>score := score s + 1\<rparr> else s"
  from assms True k obtain f where
    f: "log_result (q_topic q) (q_difficulty q) ?ac k (q_question_id q) (log_file s) =
          Some (Inr f)"
    and s': "s' = ?s1\<lparr>log_file := f, answered := True\<rparr>"
    by (auto simp: submit_answer_def split: option.splits sum.splits if_splits)
  from log_result_cases [of "q_topic q" "q_difficulty q" ?ac k "q_question_id q" "log_file s"] f
  obtain rows r where "log_file s = Some rows" "plain_row r" "f = Some (rows @ [r])"
    by auto
  with True s' show ?thesis by auto
qed

lemma submit_answer_Raised:
  assumes "submit_answer c radio q s = Raised e s'"
  shows "answered s' = answered s" and "num_questions s' = num_questions s"
    and "log_file s' = log_file s" and "score s' = score s \<or> score s' = score s + 1"
  using assms
  by (auto simp: submit_answer_def split: if_splits option.splits sum.splits)

lemma next_question_Done:
  "\<exists>s'. next_question c s = Done s' \<and> log_file s' = log_file s \<and> score s' = score s \<and>
     (s' = s \<or> c \<and> answered s \<and> \<not> answered s' \<and> num_questions s' = num_questions s + 1)"
  by (auto simp: next_question_def)

lemma take_quiz_again_Done:
  "\<exists>s'. take_quiz_again c s = Done s' \<and> log_file s' = log_file s \<and>
     (s' = s \<or> s' = fresh_session (log_file s))"
  by (auto simp: take_quiz_again_def fresh_session_def)

lemma script_run_cases [consumes 1, case_names reset unchanged slipped graded advanced]:
  assumes "state_after (script_run fit gen b radio s) = Some s'"
  obtains
    (reset) "score s' = 0" "num_questions s' = 0" "\<not> answered s'"
      "stored_rows (log_file s') = stored_rows (log_file s)"
  | (unchanged) "score s' = score s" "num_questions s' = num_questions s"
      "answered s' = answered s" "stored_rows (log_file s') = stored_rows (log_file s)"
  | (slipped) e where "script_run fit gen b radio s = Raised e s'"
      "score s' = score s + 1" "num_questions s' = num_questions s"
      "answered s' = answered s" "stored_rows (log_file s') = stored_rows (log_file s)"
  | (graded) r where "script_run fit gen b radio s = Done s'"
      "score s' = score s \<or> score s' = score s + 1" "num_questions s' = num_questions s"
      "\<not> answered s" "answered s'" "num_questions s < MAX_QUESTIONS" "plain_row r"
      "stored_rows (log_file s') = stored_rows (log_file s) @ [r]"
  | (advanced) "score s' = score s" "num_questions s' = num_questions s + 1"
      "num_questions s < MAX_QUESTIONS" "answered s" "\<not> answered s'"
      "stored_rows (log_file s') = stored_rows (log_file s)"
proof -
  let ?s0 = "s\<lparr>log_file := init_log_file (log_file s)\<rparr>"
  let ?page = "\<lambda>s. case current_question s of
               Some q_data \<Rightarrow>
                 if num_questions s < MAX_QUESTIONS then
                   and_then (submit_answer (b = Submit_Answer) radio q_data s)
                            (next_question (b = Next_Question))
                 else take_quiz_again (b = Take_Quiz_Again) s
             | None \<Rightarrow> take_quiz_again (b = Take_Quiz_Again) s"
  have run: "script_run fit gen b radio s = and_then (next_question_step fit gen ?s0) ?page"
    by (simp add: script_run_def)
  show ?thesis
  proof (cases "next_question_step fit gen ?s0")
    case Unmodelled
    with assms run show ?thesis by simp
  next
    case (Raised e s1)
    with assms run have "s' = s1" by simp
    with next_question_step_after [of fit gen ?s0 s1] Raised
    have "score s' = score s" "num_questions s' = num_questions s"
      "answered s' = answered s" "stored_rows (log_file s') = stored_rows (log_file s)"
      by simp_all
    then show ?thesis by (rule unchanged)
  next
    case (Done s1)
    from next_question_step_after [of fit gen ?s0 s1] Done
    have f1: "score s1 = score s" "answered s1 = answered s"
      "num_questions s1 = num_questions s" "log_file s1 = init_log_file (log_file s)"
      by simp_all
    then have l1: "stored_rows (log_file s1) = stored_rows (log_file s)"
      "log_file s1 = Some (stored_rows (log_file s))"
      by (simp_all add: init_log_file_stored)
    from run Done have run1: "script_run fit gen b radio s = ?page s1" by simp
    consider (again) "?page s1 = take_quiz_again (b = Take_Quiz_Again) s1"
      | (page) q where "current_question s1 = Some q" "num_questions s1 < MAX_QUESTIONS"
          "?page s1 = and_then (submit_answer (b = Submit_Answer) radio q s1)
                               (next_question (b = Next_Question))"
      by (cases "current_question s1"; cases "num_questions s1 < MAX_QUESTIONS") auto
    then show ?thesis
    proof cases
      case again
      from take_quiz_again_Done [of "b = Take_Quiz_Again" s1] obtain s2 where
        t: "take_quiz_again (b = Take_Quiz_Again) s1 = Done s2" "log_file s2 = log_file s1"
          "s2 = s1 \<or> s2 = fresh_session (log_file s1)"
        by blast
      with assms run1 again have s': "s' = s2" by simp
      from t(3) show ?thesis
      proof
        assume "s2 = s1"
        with s' f1 l1 show ?thesis by (intro unchanged) simp_all
      next
        assume "s2 = fresh_session (log_file s1)"
        with s' l1 show ?thesis by (intro reset) (simp_all add: fresh_session_def)
      qed
    next
      case page
      show ?thesis
      proof (cases "submit_answer (b = Submit_Answer) radio q s1")
        case Unmodelled
        with assms run1 page show ?thesis by simp
      next
        case (Raised e s2)
        with assms run1 page have s': "s' = s2" and r: "script_run fit gen b radio s = Raised e s'"
          by simp_all
        note sr = submit_answer_Raised [OF Raised]
        from sr(4) show ?thesis
        proof
          assume "score s2 = score s1"
          with s' sr f1 l1 show ?thesis by (intro unchanged) simp_all
        next
          assume "score s2 = score s1 + 1"
          with s' sr f1 l1 r show ?thesis by (intro slipped [of e]) simp_all
        qed
      next
        case (Done s2)
        from next_question_Done [of "b = Next_Question" s2] obtain s3 where
          n: "next_question (b = Next_Question) s2 = Done s3" "log_file s3 = log_file s2"
            "score s3 = score s2"
            "s3 = s2 \<or> b = Next_Question \<and> answered s2 \<and> \<not> answered s3 \<and>
               num_questions s3 = num_questions s2 + 1"
          by blast
        with assms run1 page Done have s': "s' = s3"
          and r: "script_run fit gen b radio s = Done s'"
          by simp_all
        from submit_answer_Done [OF Done]
        consider (same) "s2 = s1"
          | (changed) rows r where "b = Submit_Answer" "\<not> answered s1" "answered s2"
              "num_questions s2 = num_questions s1"
              "score s2 = score s1 \<or> score s2 = score s1 + 1"
              "log_file s1 = Some rows" "plain_row r" "log_file s2 = Some (rows @ [r])"
          by blast
        then show ?thesis
        proof cases
          case same
          from n(4) show ?thesis
          proof
            assume "s3 = s2"
            with same s' f1 l1 show ?thesis by (intro unchanged) simp_all
          next
            assume "b = Next_Question \<and> answered s2 \<and> \<not> answered s3 \<and>
               num_questions s3 = num_questions s2 + 1"
            with same s' n f1 l1 page(2) show ?thesis by (intro advanced) simp_all
          qed
        next
          case changed
          with n(4) have "s3 = s2" by auto
          with changed s' f1 l1 page(2) r show ?thesis
            by (intro graded [of r]) simp_all
        qed
      qed
    qed
  qed
qed

lemma reachable_counters:
  "reachable s \<Longrightarrow> 0 \<le> score s \<and> 0 \<le> num_questions s \<and> num_questions s \<le> MAX_QUESTIONS"
proof (induction rule: reachable.induct)
  case (fresh f)
  show ?case by (simp add: fresh_session_def MAX_QUESTIONS_def)
next
  case (ended s fit gen b radio s')
  then have "state_after (script_run fit gen b radio s) = Some s'" by simp
  then show ?case
    using ended.IH by (cases rule: script_run_cases) (auto simp: MAX_QUESTIONS_def)
next
  case (stopped s fit gen b radio e s')
  then have "state_after (script_run fit gen b radio s) = Some s'" by simp
  then show ?case
    using stopped.IH by (cases rule: script_run_cases) (auto simp: MAX_QUESTIONS_def)
qed

lemma fresh_session_bounds: "session_bounds (fresh_session f)"
  by (simp add: session_bounds_def fresh_session_def MAX_QUESTIONS_def)

lemma orderly_bounds: "orderly s \<Longrightarrow> session_bounds s"
proof (induction rule: orderly.induct)
  case (fresh f)
  show ?case by (rule fresh_session_bounds)
next
  case (ended s fit gen b radio s')
  then have "state_after (script_run fit gen b radio s) = Some s'" by simp
  then show ?case
    using ended.IH ended.hyps(2)
    by (cases rule: script_run_cases) (auto simp: session_bounds_def MAX_QUESTIONS_def)
next
  case (stopped s fit gen b radio e s')
  then have "state_after (script_run fit gen b radio s) = Some s'" by simp
  then show ?case
    using stopped.IH stopped.hyps(2,3)
    by (cases rule: script_run_cases) (auto simp: session_bounds_def MAX_QUESTIONS_def)
qed

lemma first_submit_run:
  assumes cq: "current_question s = Some q" and na: "\<not> answered s"
    and nq: "num_questions s < MAX_QUESTIONS"
    and sel: "selected_of radio = Some (Inr k)"
    and key: "k = correct_answer q \<or> (\<exists>shown. py_index (options q) (correct_answer q - 1) = Inr shown)"
    and ex: "explanation q \<noteq> None"
    and rows: "list_all plain_row (stored_rows (log_file s))"
    and row: "plain_row \<lparr>topic = q_topic q, difficulty = q_difficulty q,
                          answered_correct = (if k = correct_answer q then 1 else 0),
                          choice = k, question_id = q_question_id q\<rparr>"
  shows "script_run fit gen Submit_Answer radio s =
           Done (s\<lparr>score := score s + (if k = correct_answer q then 1 else 0),
                   log_file := Some (stored_rows (log_file s) @
                                      [\<lparr>topic = q_topic q, difficulty = q_difficulty q,
                                        answered_correct = (if k = correct_answer q then 1 else 0),
                                        choice = k, question_id = q_question_id q\<rparr>]),
                   answered := True\<rparr>)"
proof -
  let ?s0 = "s\<lparr>log_file := init_log_file (log_file s)\<rparr>"
  have n: "next_question_step fit gen ?s0 = Done ?s0"
    using cq by (simp add: next_question_step_def)
  have na0: "\<not> answered ?s0" using na by simp
  have l0: "log_file ?s0 = Some (stored_rows (log_file s))"
    by (simp add: init_log_file_stored)
  note g = submit_answer_graded [OF sel na0 l0 key ex rows row]
  show ?thesis
    using cq nq by (simp add: script_run_def n g next_question_def)
qed

lemma submit_run_answered:
  "script_run example_fit example_generator Submit_Answer ''3. 1914'' pending_session =
     Done answered_session"
proof -
  have sel: "selected_of ''3. 1914'' = Some (Inr 3)"
    by (simp add: selected_of_label py_int_digits)
  have key: "3 = correct_answer pending_question \<or>
      (\<exists>shown. py_index (options pending_question) (correct_answer pending_question - 1) = Inr shown)"
    by (simp add: pending_question_fields)
  have rows: "list_all plain_row (stored_rows (log_file pending_session))"
    by (simp add: pending_session_fields)
  have row: "plain_row \<lparr>topic = q_topic pending_question, difficulty = q_difficulty pending_question,
      answered_correct = (if 3 = correct_answer pending_question then 1 else 0),
      choice = 3, question_id = q_question_id pending_question\<rparr>"
    by (simp add: plain_row_def plain_cells_of_pending_question in_int64_small)
  from first_submit_run [OF pending_session_fields(1,2,3) sel key pending_question_fields(6)
      rows row, of example_fit example_generator]
  show ?thesis
    by (simp add: pending_question_fields pending_session_fields)
      (simp add: pending_session_def answered_session_def)
qed

lemma reachable_pending: "reachable pending_session"
  by (rule reachable.ended [OF reachable.fresh first_run_pending])

lemma reachable_answered: "reachable answered_session"
  by (rule reachable.ended [OF reachable_pending submit_run_answered])

lemma orderly_pending: "orderly pending_session"
  by (rule orderly.ended [OF orderly.fresh first_run_pending])

lemma orderly_answered: "orderly answered_session"
  by (rule orderly.ended [OF orderly_pending submit_run_answered])

lemma unexplained_first_run:
  "script_run example_fit unexplained_generator No_Button [] (fresh_session None) =
     Done (unexplained_session\<lparr>score := 0\<rparr>)"
  by (simp add: unexplained_session_def pending_question_def script_run_def
      next_question_step_def fresh_session_def
      init_log_file_def MAX_QUESTIONS_def train_adaptive_model_def read_csv_def
      select_adaptive_difficulty_def unexplained_generator_def str_int_def str_nat.simps
      digit_char_def submit_answer_def next_question_def formattable_small)

lemma unexplained_submit:
  "script_run example_fit unexplained_generator Submit_Answer ''3. 1914''
       (unexplained_session\<lparr>score := n\<rparr>) =
     Raised KeyError (unexplained_session\<lparr>score := n + 1\<rparr>)"
proof -
  have sel: "selected_of ''3. 1914'' = Some (Inr 3)"
    by (simp add: selected_of_label py_int_digits)
  show ?thesis
    by (simp add: unexplained_session_def script_run_def next_question_step_def
        MAX_QUESTIONS_def submit_answer_def sel pending_question_def example_question_def)
qed

lemma reachable_unexplained: "reachable unexplained_session"
proof -
  have 0: "reachable (unexplained_session\<lparr>score := 0\<rparr>)"
    by (rule reachable.ended [OF reachable.fresh unexplained_first_run])
  have 1: "reachable (unexplained_session\<lparr>score := 0 + 1\<rparr>)"
    by (rule reachable.stopped [OF 0 unexplained_submit])
  have "reachable (unexplained_session\<lparr>score := 0 + 1 + 1\<rparr>)"
    by (rule reachable.stopped [OF 1 unexplained_submit])
  then show ?thesis by (simp add: unexplained_session_def)
qed

text \<open>
  The exception of a missing explanation comes after the score was raised and before
  \<open>answered\<close> is set: each further click on "Submit Answer" raises the score again.
\<close>

lemma score_runs_ahead_after_exceptions:
  "reachable unexplained_session \<and> score unexplained_session = 2 \<and>
   num_questions unexplained_session = 0 \<and> \<not> answered unexplained_session"
  using reachable_unexplained by (simp add: unexplained_session_def)

text \<open>
  C3 as stated fails: the submit handler adds to \<open>score\<close>, and \<open>num_questions\<close> grows
  only in the next-question handler. After the right answer to the first question the
  session has score 1 and has counted 0 questions.
\<close>

theorem score_exceeds_answered_count_counterexample:
  "reachable answered_session \<and> score answered_session = 1 \<and>
   num_questions answered_session = 0 \<and>
   \<not> (score answered_session \<le> num_questions answered_session)"
  using reachable_answered by (simp add: answered_session_def)

text \<open>
  C3, amended. In every state a session can reach, \<open>0 \<le> score\<close> and
  \<open>0 \<le> num_questions \<le> MAX_QUESTIONS\<close>. In a session in which no run was stopped by an
  exception after it had raised the score, moreover, \<open>score \<le> MAX_QUESTIONS\<close>, and the
  score is at most the number of counted questions plus one while an answered question
  waits for "Next Question", and at most that number otherwise.
\<close>

theorem score_within_answered_count_plus_one:
  "(reachable s \<longrightarrow>
      0 \<le> score s \<and> 0 \<le> num_questions s \<and> num_questions s \<le> MAX_QUESTIONS) \<and>
   (orderly s \<longrightarrow>
      0 \<le> score s \<and> score s \<le> num_questions s + (if answered s then 1 else 0) \<and>
      0 \<le> num_questions s \<and> num_questions s \<le> MAX_QUESTIONS \<and>
      score s \<le> MAX_QUESTIONS \<and>
      (\<not> answered s \<longrightarrow> score s \<le> num_questions s))"
proof -
  have "0 \<le> score s \<and> 0 \<le> num_questions s \<and> num_questions s \<le> MAX_QUESTIONS"
    if "reachable s"
    using reachable_counters [OF that] .
  moreover have "0 \<le> score s \<and> score s \<le> num_questions s + (if answered s then 1 else 0) \<and>
      0 \<le> num_questions s \<and> num_questions s \<le> MAX_QUESTIONS \<and>
      score s \<le> MAX_QUESTIONS \<and>
      (\<not> answered s \<longrightarrow> score s \<le> num_questions s)"
    if "orderly s"
    using orderly_bounds [OF that] by (auto simp: session_bounds_def split: if_splits)
  ultimately show ?thesis by blast
qed

theorem score_within_answered_count_plus_one_witness:
  "0 \<le> score answered_session \<and>
   score answered_session \<le> num_questions answered_session + 1 \<and>
   num_questions answered_session \<le> MAX_QUESTIONS \<and>
   score pending_session \<le> num_questions pending_session \<and>
   0 \<le> score unexplained_session \<and> num_questions unexplained_session \<le> MAX_QUESTIONS"
  using score_within_answered_count_plus_one [of answered_session]
    score_within_answered_count_plus_one [of pending_session]
    score_within_answered_count_plus_one [of unexplained_session]
    reachable_answered orderly_answered orderly_pending reachable_unexplained
  by (simp add: answered_session_def pending_session_def)

lemma str_nat_plain: "c \<in> set (str_nat n) \<Longrightarrow> plain_char c \<and> c \<noteq> CHR '' ''"
proof (induction n rule: str_nat.induct)
  case (1 n)
  have d: "plain_char (digit_char k) \<and> digit_char k \<noteq> CHR '' ''" if "k < 10" for k
  proof -
    from that have "k \<in> {0, 1, 2, 3, 4, 5, 6, 7, 8, 9}" by auto
    then show ?thesis by (auto simp: digit_char_def plain_char_def)
  qed
  show ?case
  proof (cases "n < 10")
    case True
    with "1.prems" d [of n] show ?thesis
      by (simp add: str_nat.simps [of n])
  next
    case False
    with "1.prems" have "c \<in> set (str_nat (n div 10)) \<or> c = digit_char (n mod 10)"
      by (auto simp: str_nat.simps [of n])
    then show ?thesis
      using "1.IH" [OF False] d [of "n mod 10"] by auto
  qed
qed

lemma plain_cell_append:
  assumes "plain_cell a" and "list_all plain_char b" and "b \<noteq> []" and "last b \<noteq> CHR '' ''"
  shows "plain_cell (a @ b)"
proof -
  from assms(1) obtain c cs where a: "a = c # cs" "plain_first c" "list_all plain_char cs"
    by (cases a) (auto simp: plain_cell_def)
  with assms(2,3,4) show ?thesis
    by (simp add: plain_cell_def)
qed

text \<open>
  The topic, the difficulty and the id of a question that the script builds (lines
  350-352) are plain cells.
\<close>

lemma built_question_is_plain:
  assumes "t \<in> set topics" and "d \<in> set difficulties" and "0 \<le> n"
  shows "plain_cell t" and "plain_cell d"
    and "plain_cell (t @ ''_'' @ d @ ''_'' @ str_int n)"
proof -
  show t: "plain_cell t"
    using assms(1) by (auto simp: topics_def plain_cell_def plain_first_def plain_char_def)
  show d: "plain_cell d"
    using assms(2)
    by (auto simp: difficulties_def plain_cell_def plain_first_def plain_char_def)
  let ?b = "''_'' @ d @ ''_'' @ str_int n"
  have s: "str_int n = str_nat (nat n)"
    using assms(3) by (simp add: str_int_def)
  have "list_all plain_char d"
    using plain_cell_chars [OF d] by (simp add: list_all_iff)
  moreover have "list_all plain_char (str_nat (nat n))"
    using str_nat_plain by (simp add: list_all_iff)
  moreover have "plain_char (CHR ''_'')"
    by (simp add: plain_char_def)
  ultimately have 1: "list_all plain_char ?b"
    by (simp add: s)
  have 2: "?b \<noteq> []" by simp
  have "last ?b = last (str_nat (nat n))"
    using str_nat_nonempty [of "nat n"] by (simp add: s)
  moreover have "last (str_nat (nat n)) \<in> set (str_nat (nat n))"
    using str_nat_nonempty [of "nat n"] by simp
  ultimately have 3: "last ?b \<noteq> CHR '' ''"
    using str_nat_plain by metis
  show "plain_cell (t @ ''_'' @ d @ ''_'' @ str_int n)"
    using plain_cell_append [OF t 1 2 3] .
qed

text \<open>A log of plain rows stays one, whatever the run.\<close>

lemma plain_log_is_kept:
  assumes "list_all plain_row (stored_rows (log_file s))"
    and "state_after (script_run fit gen b radio s) = Some s'"
  shows "list_all plain_row (stored_rows (log_file s'))"
  using assms(2,1) by (cases rule: script_run_cases) simp_all

text \<open>
  C5. With a question pending and not yet answered, submitting the \<open>k\<close>-th radio label
  (\<open>k\<close> from 1 to 4; the answer key is in 1 to 4 as well) completes the run with: the
  score raised by 1 if \<open>k\<close> equals \<open>correct_answer\<close> and unchanged otherwise, exactly one
  row appended to the log, built from the question's topic, difficulty and id, the
  verdict and \<open>k\<close>, and \<open>answered\<close> set. Nothing else changes. The question is one of the
  data model: it carries its explanation, and its topic, difficulty and id are plain
  cells, as are the rows already in the log.
\<close>

theorem first_submit_grades_and_logs_once:
  assumes "current_question s = Some q" and "\<not> answered s"
    and "num_questions s < MAX_QUESTIONS"
    and "1 \<le> k" and "k \<le> 4"
    and "1 \<le> correct_answer q" and "correct_answer q \<le> 4"
    and "explanation q \<noteq> None"
    and "plain_cell (q_topic q)" and "plain_cell (q_difficulty q)"
    and "plain_cell (q_question_id q)"
    and "list_all plain_row (stored_rows (log_file s))"
  shows "script_run fit gen Submit_Answer (options_numbered q ! nat (k - 1)) s =
           Done (s\<lparr>score := score s + (if k = correct_answer q then 1 else 0),
                   log_file := Some (stored_rows (log_file s) @
                                      [\<lparr>topic = q_topic q, difficulty = q_difficulty q,
                                        answered_correct = (if k = correct_answer q then 1 else 0),
                                        choice = k, question_id = q_question_id q\<rparr>]),
                   answered := True\<rparr>)"
proof -
  have sel: "selected_of (options_numbered q ! nat (k - 1)) = Some (Inr k)"
    using assms(4,5) by (rule radio_label_selected)
  have key: "k = correct_answer q \<or>
      (\<exists>shown. py_index (options q) (correct_answer q - 1) = Inr shown)"
    using answer_key_in_range [OF assms(6,7)] by simp
  have "in_int64 k" "in_int64 (if k = correct_answer q then 1 else 0)"
    using assms(4,5) by (simp_all add: in_int64_small)
  then have row: "plain_row \<lparr>topic = q_topic q, difficulty = q_difficulty q,
      answered_correct = (if k = correct_answer q then 1 else 0),
      choice = k, question_id = q_question_id q\<rparr>"
    using assms(9,10,11) by (simp add: plain_row_def)
  show ?thesis
    using assms(1,2,3) sel key assms(8,12) row by (rule first_submit_run)
qed

theorem first_submit_grades_and_logs_once_witness:
  "script_run example_fit example_generator Submit_Answer ''3. 1914'' pending_session =
     Done (pending_session\<lparr>score := 1,
             log_file := Some [\<lparr>topic = ''World War I'', difficulty = ''Easy'',
                                answered_correct = 1, choice = 3,
                                question_id = ''World War I_Easy_0''\<rparr>],
             answered := True\<rparr>) \<and>
   script_run example_fit example_generator Submit_Answer ''2. 1939'' pending_session =
     Done (pending_session\<lparr>score := 0,
             log_file := Some [\<lparr>topic = ''World War I'', difficulty = ''Easy'',
                                answered_correct = 0, choice = 2,
                                question_id = ''World War I_Easy_0''\<rparr>],
             answered := True\<rparr>)"
proof -
  have k3: "(1::int) \<le> 3" "(3::int) \<le> 4" and k2: "(1::int) \<le> 2" "(2::int) \<le> 4"
    by simp_all
  have c: "1 \<le> correct_answer pending_question" "correct_answer pending_question \<le> 4"
    by (simp_all add: pending_question_fields)
  have l: "list_all plain_row (stored_rows (log_file pending_session))"
    by (simp add: pending_session_fields)
  note a = first_submit_grades_and_logs_once
    [OF pending_session_fields(1,2,3) k3 c pending_question_fields(6)
      plain_cells_of_pending_question l, of example_fit example_generator]
  note b = first_submit_grades_and_logs_once
    [OF pending_session_fields(1,2,3) k2 c pending_question_fields(6)
      plain_cells_of_pending_question l, of example_fit example_generator]
  from a b show ?thesis
    by (simp add: pending_question_fields pending_session_fields)
qed

text \<open>
  C4. Once \<open>answered\<close> is set, the submit handler returns the state as it is, whatever
  the radio label: nothing is graded and no row is written. The whole run of the script
  on "Submit Answer" likewise leaves score, counted questions and the stored rows as
  they were (the state itself, given that the log file exists).
\<close>

theorem second_submit_changes_nothing:
  assumes "answered s"
  shows "submit_answer True radio q s = Done s \<and>
         (current_question s = Some q \<longrightarrow>
            script_run fit gen Submit_Answer radio s =
              Done (s\<lparr>log_file := init_log_file (log_file s)\<rparr>) \<and>
            stored_rows (init_log_file (log_file s)) = stored_rows (log_file s) \<and>
            (log_file s \<noteq> None \<longrightarrow> script_run fit gen Submit_Answer radio s = Done s))"
proof (intro conjI impI)
  show h: "submit_answer True radio q s = Done s"
    using assms by (simp add: submit_answer_def)
  assume cq: "current_question s = Some q"
  let ?s0 = "s\<lparr>log_file := init_log_file (log_file s)\<rparr>"
  have n: "next_question_step fit gen ?s0 = Done ?s0"
    using cq by (simp add: next_question_step_def)
  show r: "script_run fit gen Submit_Answer radio s = Done ?s0"
    using cq assms
    by (simp add: script_run_def n submit_answer_def next_question_def take_quiz_again_def)
  show "stored_rows (init_log_file (log_file s)) = stored_rows (log_file s)"
    by simp
  assume "log_file s \<noteq> None"
  then have "?s0 = s" by (auto simp: init_log_file_def)
  with r show "script_run fit gen Submit_Answer radio s = Done s" by simp
qed

theorem second_submit_changes_nothing_witness:
  "submit_answer True ''2. 1939'' pending_question answered_session = Done answered_session \<and>
   script_run example_fit example_generator Submit_Answer ''2. 1939'' answered_session =
     Done answered_session \<and>
   score answered_session = 1 \<and> num_questions answered_session = 0 \<and>
   length (stored_rows (log_file answered_session)) = 1"
proof -
  have a: "answered answered_session"
    and c: "current_question answered_session = Some pending_question"
    and l: "log_file answered_session \<noteq> None"
    by (simp_all add: answered_session_def)
  from second_submit_changes_nothing [OF a, of "''2. 1939''" pending_question
      example_fit example_generator] c l
  have "submit_answer True ''2. 1939'' pending_question answered_session = Done answered_session"
    and "script_run example_fit example_generator Submit_Answer ''2. 1939'' answered_session =
     Done answered_session"
    by blast+
  then show ?thesis
    by (simp add: answered_session_def)
qed

text \<open>
  C6. For a log of plain rows and a plain new row, the text that \<^verbatim>\<open>log_result\<close> writes
  is read back as the rows that were there before, unchanged and in their order,
  followed by the new row: the new row stands last and occurs once more than before.
  No run of the script, whatever the user action, changes or removes a stored row: the
  rows before a run are a prefix of the rows after it.
\<close>

theorem log_is_append_only:
  assumes "list_all plain_row (stored_rows f)"
    and "plain_row \<lparr>topic = t, difficulty = d, answered_correct = ac, choice = ch,
                     question_id = qid\<rparr>"
  shows "(\<exists>csv. to_csv (stored_rows f @ [\<lparr>topic = t, difficulty = d, answered_correct = ac,
                                           choice = ch, question_id = qid\<rparr>]) = Some csv \<and>
            from_csv csv = Some (stored_rows f @ [\<lparr>topic = t, difficulty = d,
                                                   answered_correct = ac, choice = ch,
                                                   question_id = qid\<rparr>])) \<and>
         (\<exists>f'. log_result t d ac ch qid (init_log_file f) = Some (Inr f') \<and>
            read_csv f' = Inr (stored_rows f @ [\<lparr>topic = t, difficulty = d,
                                                 answered_correct = ac, choice = ch,
                                                 question_id = qid\<rparr>]) \<and>
            stored_rows f' = stored_rows f @ [\<lparr>topic = t, difficulty = d,
                                               answered_correct = ac, choice = ch,
                                               question_id = qid\<rparr>] \<and>
            last (stored_rows f') = \<lparr>topic = t, difficulty = d, answered_correct = ac,
                                      choice = ch, question_id = qid\<rparr> \<and>
            count_list (stored_rows f') \<lparr>topic = t, difficulty = d, answered_correct = ac,
                                         choice = ch, question_id = qid\<rparr> =
              count_list (stored_rows f) \<lparr>topic = t, difficulty = d, answered_correct = ac,
                                          choice = ch, question_id = qid\<rparr> + 1) \<and>
         (\<forall>s'. state_after (script_run fit gen b radio s) = Some s' \<longrightarrow>
            prefix (stored_rows (log_file s)) (stored_rows (log_file s')))"
proof -
  let ?r = "\<lparr>topic = t, difficulty = d, answered_correct = ac, choice = ch, question_id = qid\<rparr>"
  have "list_all plain_row (stored_rows f @ [?r])"
    using assms by simp
  then have 1: "\<exists>csv. to_csv (stored_rows f @ [?r]) = Some csv \<and>
      from_csv csv = Some (stored_rows f @ [?r])"
    by (rule from_csv_to_csv)
  have w: "log_result t d ac ch qid (init_log_file f) = Some (Inr (Some (stored_rows f @ [?r])))"
    using log_result_plain [OF assms] by (simp add: init_log_file_stored)
  have 2: "\<exists>f'. log_result t d ac ch qid (init_log_file f) = Some (Inr f') \<and>
            read_csv f' = Inr (stored_rows f @ [?r]) \<and>
            stored_rows f' = stored_rows f @ [?r] \<and>
            last (stored_rows f') = ?r \<and>
            count_list (stored_rows f') ?r = count_list (stored_rows f) ?r + 1"
    using w by (simp add: read_csv_def)
  have 3: "prefix (stored_rows (log_file s)) (stored_rows (log_file s'))"
    if "state_after (script_run fit gen b radio s) = Some s'" for s'
    using that by (cases rule: script_run_cases) simp_all
  from 1 2 3 show ?thesis by blast
qed

theorem log_is_append_only_witness:
  "log_result ''World War II'' ''Medium'' 0 4 ''World War II_Medium_3'' (Some scenario_log) =
     Some (Inr (Some (scenario_log @
       [\<lparr>topic = ''World War II'', difficulty = ''Medium'', answered_correct = 0, choice = 4,
         question_id = ''World War II_Medium_3''\<rparr>]))) \<and>
   log_result ''World War I'' ''Easy'' 1 3 ''World War I_Easy_0'' (init_log_file None) =
     Some (Inr (Some [\<lparr>topic = ''World War I'', difficulty = ''Easy'', answered_correct = 1,
                       choice = 3, question_id = ''World War I_Easy_0''\<rparr>])) \<and>
   prefix (stored_rows (log_file pending_session)) (stored_rows (log_file answered_session))"
proof -
  have p: "list_all plain_row (stored_rows (Some scenario_log))"
    by (simp add: scenario_log_def plain_row_def plain_cell_def plain_first_def plain_char_def
        in_int64_small)
  have r: "plain_row \<lparr>topic = ''World War II'', difficulty = ''Medium'', answered_correct = 0,
      choice = 4, question_id = ''World War II_Medium_3''\<rparr>"
    by (simp add: plain_row_def plain_cell_def plain_first_def plain_char_def in_int64_small)
  have p0: "list_all plain_row (stored_rows None)"
    by simp
  have r0: "plain_row \<lparr>topic = ''World War I'', difficulty = ''Easy'', answered_correct = 1,
      choice = 3, question_id = ''World War I_Easy_0''\<rparr>"
    by (simp add: plain_row_def plain_cell_def plain_first_def plain_char_def in_int64_small)
  have a: "state_after (script_run example_fit example_generator Submit_Answer ''3. 1914''
      pending_session) = Some answered_session"
    by (simp add: submit_run_answered)
  from log_is_append_only [OF p r, of example_fit example_generator Submit_Answer
      "''3. 1914''" pending_session] a
  have 1: "log_result ''World War II'' ''Medium'' 0 4 ''World War II_Medium_3''
      (init_log_file (Some scenario_log)) =
     Some (Inr (Some (scenario_log @
       [\<lparr>topic = ''World War II'', difficulty = ''Medium'', answered_correct = 0, choice = 4,
         question_id = ''World War II_Medium_3''\<rparr>])))"
    and 3: "prefix (stored_rows (log_file pending_session))
      (stored_rows (log_file answered_session))"
    by (auto simp: read_csv_def split: option.splits)
  from log_is_append_only [OF p0 r0, of example_fit example_generator No_Button "[]"
      pending_session]
  have 2: "log_result ''World War I'' ''Easy'' 1 3 ''World War I_Easy_0'' (init_log_file None) =
     Some (Inr (Some [\<lparr>topic = ''World War I'', difficulty = ''Easy'', answered_correct = 1,
                       choice = 3, question_id = ''World War I_Easy_0''\<rparr>]))"
    by (auto simp: read_csv_def split: option.splits)
  from 1 2 3 show ?thesis by simp
qed

end
